theory Spec2Isabelle
  imports Complex_Main "HOL-Library.Word"
begin

unbundle bit_operations_syntax

section \<open>Python values shared by the models\<close>

text \<open>
  Exceptions are values. Only the kind of an exception is kept; the message text of
  \<^verbatim>\<open>str(e)\<close> is not modelled.
\<close>

datatype py_error =
  ValueError | IndexError | KeyError | TypeError | AttributeError | UnicodeError | OverflowError

text \<open>
  Python list indexing with an \<^verbatim>\<open>int\<close>: a negative index counts from the end, an index
  outside \<^verbatim>\<open>[-n, n)\<close> raises IndexError (here: \<open>None\<close>).
\<close>

definition norm_index :: "nat \<Rightarrow> int \<Rightarrow> nat option" where
  "norm_index n i =
     (if 0 \<le> i \<and> i < int n then Some (nat i)
      else if - int n \<le> i \<and> i < 0 then Some (nat (int n + i))
      else None)"


section \<open>server/motor.py: MotorController\<close>

text \<open>
  One entry of \<^verbatim>\<open>self.motors\<close>: the levels of the three output pins. \<open>pulses\<close> is a
  ghost counter of the rising edges produced on the step pin, that is of the steps the
  motor has physically taken. The five lists of the controller have one entry for each
  motor, as \<^verbatim>\<open>__init__\<close> builds them.
\<close>

record motor_pins =
  step_pin :: bool
  dir_pin :: bool
  enable_pin :: bool
  pulses :: nat

record motor_controller =
  motors :: "motor_pins list"
  moving_status :: "bool list"
  stop_request :: "bool list"
  current_steps :: "int list"
  current_floor :: "int list"

definition STEPS_PER_FLOOR :: int where "STEPS_PER_FLOOR = 550"

text \<open>\<^verbatim>\<open>MotorController.__init__\<close> for \<open>n\<close> pin triples: every enable pin is switched off.\<close>

definition motor_init :: "nat \<Rightarrow> motor_controller" where
  "motor_init n =
     \<lparr> motors = replicate n
         \<lparr> step_pin = False, dir_pin = False, enable_pin = False, pulses = 0 \<rparr>,
       moving_status = replicate n False,
       stop_request = replicate n False,
       current_steps = replicate n 0,
       current_floor = replicate n 1 \<rparr>"


text \<open>
  The body of the \<^verbatim>\<open>for current_step in range(steps)\<close> loop of \<^verbatim>\<open>rotate_motor\<close> for motor
  \<open>m\<close>. Each iteration checks the stop flag, pulses the step pin high and low, and then
  awaits two delays. Other tasks run only during these awaits; the one that matters here is
  a call of \<^verbatim>\<open>stop_motor(m)\<close>, whose first statement sets \<^verbatim>\<open>stop_request[m]\<close>.
  \<open>stop_at = Some k\<close> says that this happens during the awaits of iteration \<open>k\<close>;
  \<open>None\<close> says that no stop is requested.
\<close>

definition pulse_step :: "motor_pins \<Rightarrow> motor_pins" where
  "pulse_step p = p\<lparr> step_pin := False, pulses := Suc (pulses p) \<rparr>"

function rotate_loop ::
  "motor_controller \<Rightarrow> nat \<Rightarrow> nat \<Rightarrow> nat \<Rightarrow> nat option \<Rightarrow> motor_controller" where
  "rotate_loop mc m steps current_step stop_at =
     (if steps \<le> current_step then mc
      else if stop_request mc ! m then mc
      else
        let mc1 = mc\<lparr> motors := (motors mc)[m := pulse_step (motors mc ! m)] \<rparr>;
            mc2 = (if stop_at = Some current_step
                   then mc1\<lparr> stop_request := (stop_request mc1)[m := True] \<rparr>
                   else mc1)
        in rotate_loop mc2 m steps (Suc current_step) stop_at)"
  by pat_completeness auto
termination
  by (relation "measure (\<lambda>(mc, m, steps, current_step, stop_at). steps - current_step)") auto

declare rotate_loop.simps [simp del]

text \<open>
  \<^verbatim>\<open>rotate_motor\<close>. The \<^verbatim>\<open>finally\<close> block clears \<^verbatim>\<open>moving_status\<close> and calls
  \<^verbatim>\<open>enable_motor(motor_index, True)\<close>, which writes \<^verbatim>\<open>not enable\<close> to the enable pin.
  A negative \<^verbatim>\<open>motor_index\<close> passes the length check and indexes from the end.
\<close>

definition enable_motor :: "motor_controller \<Rightarrow> nat \<Rightarrow> bool \<Rightarrow> motor_controller" where
  "enable_motor mc m enable =
     mc\<lparr> motors := (motors mc)[m := (motors mc ! m)\<lparr> enable_pin := \<not> enable \<rparr>] \<rparr>"

definition rotate_motor ::
  "motor_controller \<Rightarrow> int \<Rightarrow> int \<Rightarrow> int \<Rightarrow> nat option \<Rightarrow> py_error + motor_controller" where
  "rotate_motor mc motor_index steps direction stop_at =
     (if motor_index \<ge> int (length (motors mc)) then Inl ValueError
      else if steps = 0 then Inr mc
      else
        case norm_index (length (motors mc)) motor_index of
          None \<Rightarrow> Inl IndexError
        | Some m \<Rightarrow>
            let mc1 = mc\<lparr> moving_status := (moving_status mc)[m := True] \<rparr>;
                mc2 = enable_motor mc1 m True;
                mc3 = mc2\<lparr> motors := (motors mc2)[m := (motors mc2 ! m)\<lparr> dir_pin := (direction \<noteq> 0) \<rparr>] \<rparr>;
                mc4 = rotate_loop mc3 m (nat steps) 0 stop_at;
                mc5 = mc4\<lparr> moving_status := (moving_status mc4)[m := False] \<rparr>
            in Inr (enable_motor mc5 m True))"

text \<open>
  \<^verbatim>\<open>move_to_floor\<close>. The debug \<^verbatim>\<open>print\<close> on its first line reads
  \<^verbatim>\<open>self.current_floor[motor_index]\<close> before any check, so an index outside the list raises
  IndexError there. After \<^verbatim>\<open>rotate_motor\<close> returns, the target floor is stored without
  looking at how the loop ended.
\<close>

definition move_to_floor ::
  "motor_controller \<Rightarrow> int \<Rightarrow> int \<Rightarrow> nat option \<Rightarrow> py_error + motor_controller" where
  "move_to_floor mc motor_index target_floor stop_at =
     (case norm_index (length (current_floor mc)) motor_index of
        None \<Rightarrow> Inl IndexError
      | Some m \<Rightarrow>
          if motor_index \<ge> int (length (motors mc)) then Inl ValueError
          else if target_floor < 1 \<or> target_floor > 3 then Inl ValueError
          else if current_floor mc ! m = target_floor then Inr mc
          else
            let floor_diff = target_floor - current_floor mc ! m;
                steps = \<bar>floor_diff\<bar> * STEPS_PER_FLOOR;
                direction = (if floor_diff > 0 then 0 else 1)
            in (case rotate_motor mc motor_index steps direction stop_at of
                  Inl e \<Rightarrow> Inl e
                | Inr mc' \<Rightarrow>
                    Inr (mc'\<lparr> current_floor := (current_floor mc')[m := target_floor] \<rparr>)))"

section \<open>server/elevator.py: ElevatorManager\<close>

text \<open>
  One value of \<^verbatim>\<open>self.elevators\<close>. The status strings \<^verbatim>\<open>'idle'\<close>, \<^verbatim>\<open>'moving'\<close> and
  \<^verbatim>\<open>'error'\<close> are the three constructors; the key \<^verbatim>\<open>'floor'\<close> is the field \<open>floor_at\<close>.
  The dictionary itself is an association list in insertion order (keys 0, 1, 2), the order
  in which \<^verbatim>\<open>.items()\<close> and \<^verbatim>\<open>.values()\<close> iterate.
\<close>

datatype elev_status = Idle | Moving | Error

record elev =
  floor_at :: int
  target :: "int option"
  status :: elev_status
  queue :: "int list"
  active :: bool

record elevator_manager =
  motor_ctl :: motor_controller
  elevators :: "(int \<times> elev) list"
  call_queue :: "(int \<times> int option) list"
  lock :: bool

text \<open>
  How a coroutine of the manager ends: it returns, it raises, or it waits for ever at
  \<^verbatim>\<open>async with self.lock\<close>. The lock of \<^verbatim>\<open>uasyncio\<close> is not re-entrant: a task that
  awaits a lock it holds itself is never resumed. \<open>lock\<close> is true while some task holds
  the lock across an await.
\<close>

datatype 'a outcome = Returned 'a | Raised py_error | Blocked

definition new_elev :: elev where
  "new_elev = \<lparr> floor_at = 1, target = None, status = Idle, queue = [], active = False \<rparr>"

definition manager_init :: "motor_controller \<Rightarrow> elevator_manager" where
  "manager_init mc =
     \<lparr> motor_ctl = mc,
       elevators = [(0, new_elev), (1, new_elev), (2, new_elev)],
       call_queue = [],
       lock = False \<rparr>"

text \<open>In-place update of the dictionary \<^verbatim>\<open>self.elevators[elevator_id]\<close>.\<close>

definition upd_elev :: "elevator_manager \<Rightarrow> int \<Rightarrow> (elev \<Rightarrow> elev) \<Rightarrow> elevator_manager" where
  "upd_elev st elevator_id f =
     st\<lparr> elevators := map (\<lambda>(i, e). if i = elevator_id then (i, f e) else (i, e)) (elevators st) \<rparr>"

text \<open>
  Python's \<^verbatim>\<open>min(xs, key=k)\<close> on a non-empty sequence \<open>best # xs\<close>: the first element
  with the least key.
\<close>

fun min_by_key :: "('a \<Rightarrow> int) \<Rightarrow> 'a \<Rightarrow> 'a list \<Rightarrow> 'a" where
  "min_by_key key best [] = best"
| "min_by_key key best (x # xs) = min_by_key key (if key x < key best then x else best) xs"

text \<open>
  The body of \<^verbatim>\<open>_select_best_elevator\<close> inside its \<^verbatim>\<open>async with self.lock\<close>. The
  result type is the source's \<^verbatim>\<open>Optional[int]\<close>; \<^verbatim>\<open>min\<close> of an empty sequence raises
  ValueError.
\<close>

definition select_body :: "(int \<times> elev) list \<Rightarrow> int \<Rightarrow> int option outcome" where
  "select_body els floor_no =
     (case find (\<lambda>(i, e). floor_at e = floor_no \<and> status e = Idle) els of
        Some (elev_id, e) \<Rightarrow> Returned (Some elev_id)
      | None \<Rightarrow>
          (case map (\<lambda>(i, e). (i, \<bar>floor_at e - floor_no\<bar>))
                  (filter (\<lambda>(i, e). status e = Idle) els) of
             a # available \<Rightarrow> Returned (Some (fst (min_by_key snd a available)))
           | [] \<Rightarrow>
               (case map (\<lambda>(i, e). int (length (queue e))) els of
                  [] \<Rightarrow> Raised ValueError
                | q # qs \<Rightarrow>
                    (case find (\<lambda>(i, e). int (length (queue e)) = min_by_key id q qs) els of
                       Some (elev_id, e) \<Rightarrow> Returned (Some elev_id)
                     | None \<Rightarrow> Returned (Some 0)))))"

definition select_best_elevator :: "elevator_manager \<Rightarrow> int \<Rightarrow> int option outcome" where
  "select_best_elevator st floor_no =
     (if lock st then Blocked else select_body (elevators st) floor_no)"

text \<open>
  \<^verbatim>\<open>_assign_floor\<close>. No caller in the server ever calls \<^verbatim>\<open>stop_motor\<close>, so the move runs
  with no stop request. Every exception of the move is caught and turned into the status
  \<^verbatim>\<open>'error'\<close>; the coroutine itself raises only KeyError, for an unknown id.
  Other tasks that could run while the move is awaited are not interleaved here.
\<close>

definition assign_floor :: "elevator_manager \<Rightarrow> int \<Rightarrow> int \<Rightarrow> elevator_manager \<times> unit outcome" where
  "assign_floor st elevator_id floor_no =
     (case map_of (elevators st) elevator_id of
        None \<Rightarrow> (st, Raised KeyError)
      | Some e0 \<Rightarrow>
          if floor_no = floor_at e0 then
            (if lock st then (st, Blocked)
             else (upd_elev st elevator_id (\<lambda>e. e\<lparr> active := True \<rparr>), Returned ()))
          else
            let st1 = upd_elev st elevator_id (\<lambda>e. e\<lparr> target := Some floor_no, status := Moving \<rparr>)
            in (case move_to_floor (motor_ctl st1) elevator_id floor_no None of
                  Inr mc \<Rightarrow>
                    (let st2 = st1\<lparr> motor_ctl := mc \<rparr>
                     in if lock st2 then (st2, Blocked)
                        else (upd_elev st2 elevator_id
                                (\<lambda>e. e\<lparr> floor_at := floor_no, target := None,
                                        status := Idle, active := True \<rparr>),
                              Returned ()))
                | Inl err \<Rightarrow>
                    (if lock st1 then (st1, Blocked)
                     else (upd_elev st1 elevator_id
                             (\<lambda>e. e\<lparr> status := Error, active := False \<rparr>),
                           Returned ()))))"

text \<open>\<^verbatim>\<open>call_elevator\<close>; the result is the pair of the dictionary's two values.\<close>

definition preferred_idle :: "elevator_manager \<Rightarrow> int option \<Rightarrow> bool" where
  "preferred_idle st preferred =
     (case preferred of
        None \<Rightarrow> False
      | Some p \<Rightarrow>
          (case map_of (elevators st) p of None \<Rightarrow> False | Some e \<Rightarrow> status e = Idle))"

definition call_elevator ::
  "elevator_manager \<Rightarrow> int \<Rightarrow> int option \<Rightarrow> elevator_manager \<times> (int option \<times> int) outcome" where
  "call_elevator st floor_no preferred_elevator =
     (if lock st then (st, Blocked)
      else
        let st1 = st\<lparr> call_queue := call_queue st @ [(floor_no, preferred_elevator)] \<rparr>
        in if preferred_idle st1 preferred_elevator then (st1, Returned (preferred_elevator, floor_no))
           else (case select_best_elevator st1 floor_no of
                   Returned elevator_id \<Rightarrow> (st1, Returned (elevator_id, floor_no))
                 | Raised err \<Rightarrow> (st1, Raised err)
                 | Blocked \<Rightarrow> (st1, Blocked)))"

text \<open>
  One iteration of the \<^verbatim>\<open>while True\<close> loop of \<^verbatim>\<open>_process_queues\<close>, and how it ends.
  The call to \<^verbatim>\<open>_select_best_elevator\<close> is made inside the \<^verbatim>\<open>async with self.lock\<close> of
  the loop, so the model calls it on a state whose lock is held.
\<close>

datatype queue_step =
  Queue_empty_slept | Requeued_slept | Assigned int | Step_raised py_error | Step_blocked

definition process_queues_step :: "elevator_manager \<Rightarrow> elevator_manager \<times> queue_step" where
  "process_queues_step st =
     (if lock st then (st, Step_blocked)
      else
        let st1 = st\<lparr> lock := True \<rparr>
        in (case call_queue st1 of
              [] \<Rightarrow> (st1\<lparr> lock := False \<rparr>, Queue_empty_slept)
            | (floor_no, preferred) # rest \<Rightarrow>
                (let st2 = st1\<lparr> call_queue := rest \<rparr>
                 in (case select_best_elevator st2 floor_no of
                       Blocked \<Rightarrow> (st2, Step_blocked)
                     | Raised err \<Rightarrow> (st2\<lparr> lock := False \<rparr>, Step_raised err)
                     | Returned None \<Rightarrow>
                         (st2\<lparr> call_queue := call_queue st2 @ [(floor_no, preferred)],
                               lock := False \<rparr>, Requeued_slept)
                     | Returned (Some elevator_id) \<Rightarrow>
                         (case assign_floor (st2\<lparr> lock := False \<rparr>) elevator_id floor_no of
                            (st3, Returned u) \<Rightarrow> (st3, Assigned elevator_id)
                          | (st3, Raised err) \<Rightarrow> (st3, Step_raised err)
                          | (st3, Blocked) \<Rightarrow> (st3, Step_blocked))))))"

text \<open>
  \<^verbatim>\<open>send_elevator\<close> and the loop of \<^verbatim>\<open>_process_elevator_queue\<close>, which pops the head of
  the elevator's queue and serves it until the queue is empty.
\<close>

definition queue_of :: "elevator_manager \<Rightarrow> int \<Rightarrow> int list" where
  "queue_of st elevator_id =
     (case map_of (elevators st) elevator_id of None \<Rightarrow> [] | Some e \<Rightarrow> queue e)"

function process_elevator_queue :: "elevator_manager \<Rightarrow> int \<Rightarrow> elevator_manager \<times> unit outcome" where
  "process_elevator_queue st elevator_id =
     (case map_of (elevators st) elevator_id of
        None \<Rightarrow> (st, Raised KeyError)
      | Some e0 \<Rightarrow>
          (case queue e0 of
             [] \<Rightarrow> (st, Returned ())
           | floor_no # rest \<Rightarrow>
               (case assign_floor (upd_elev st elevator_id (\<lambda>e. e\<lparr> queue := rest \<rparr>))
                       elevator_id floor_no of
                  (st2, Returned u) \<Rightarrow> process_elevator_queue st2 elevator_id
                | (st2, Raised err) \<Rightarrow> (st2, Raised err)
                | (st2, Blocked) \<Rightarrow> (st2, Blocked))))"
  by pat_completeness auto
termination
proof (relation "measure (\<lambda>(st, elevator_id). length (queue_of st elevator_id))")
  show "wf (measure (\<lambda>(st, elevator_id). length (queue_of st elevator_id)))"
    by simp
next
  fix st :: elevator_manager and elevator_id :: int and e0 floor_no rest st2 out u
  assume look: "map_of (elevators st) elevator_id = Some e0"
    and q: "queue e0 = floor_no # rest"
    and res: "(st2, out) =
        assign_floor (upd_elev st elevator_id (\<lambda>e. e\<lparr> queue := rest \<rparr>)) elevator_id floor_no"
    and "out = Returned u"
  have mo: "map_of (elevators (upd_elev s i f)) i = map_option f (map_of (elevators s) i)"
    for s :: elevator_manager and i f
  proof -
    have "map_of (map (\<lambda>(j, e). if j = i then (j, f e) else (j, e)) xs) i = map_option f (map_of xs i)"
      for xs :: "(int \<times> elev) list"
      by (induction xs) auto
    then show ?thesis
      by (simp add: upd_elev_def)
  qed
  have uq: "queue_of (upd_elev s i f) i = queue_of s i" if "\<And>e. queue (f e) = queue e"
    for s :: elevator_manager and i f
    using that by (simp add: queue_of_def mo split: option.splits)
  have um: "queue_of (s\<lparr> motor_ctl := mc \<rparr>) i = queue_of s i"
    for s :: elevator_manager and i mc
    by (simp add: queue_of_def)
  have keep: "queue_of (fst (assign_floor s i fl)) i = queue_of s i" for s i fl
    by (simp add: assign_floor_def Let_def uq um split: option.splits sum.splits)
  have "queue_of (upd_elev st elevator_id (\<lambda>e. e\<lparr> queue := rest \<rparr>)) elevator_id = rest"
    using look by (simp add: queue_of_def mo)
  then have "queue_of st2 elevator_id = rest"
    using keep [of "upd_elev st elevator_id (\<lambda>e. e\<lparr> queue := rest \<rparr>)" elevator_id floor_no]
      res
    by (metis fst_conv)
  then show "((st2, elevator_id), (st, elevator_id))
      \<in> measure (\<lambda>(st, elevator_id). length (queue_of st elevator_id))"
    using look q by (simp add: queue_of_def)
qed

declare process_elevator_queue.simps [simp del]

definition send_elevator :: "elevator_manager \<Rightarrow> int \<Rightarrow> int \<Rightarrow> elevator_manager \<times> unit outcome" where
  "send_elevator st elevator_id floor_no =
     (if map_of (elevators st) elevator_id = None then (st, Raised ValueError)
      else process_elevator_queue
             (upd_elev st elevator_id (\<lambda>e. e\<lparr> queue := queue e @ [floor_no] \<rparr>)) elevator_id)"

text \<open>
  \<^verbatim>\<open>reset_all\<close>: for every key in order, clear the record, move the motor to floor 1, and
  store floor 1. An exception of the move leaves the loop at once.
\<close>

fun reset_loop :: "elevator_manager \<Rightarrow> int list \<Rightarrow> elevator_manager \<times> unit outcome" where
  "reset_loop st [] = (st, Returned ())"
| "reset_loop st (elev_id # ids) =
     (let st1 = upd_elev st elev_id (\<lambda>e. e\<lparr> queue := [], target := None, status := Idle \<rparr>)
      in (case move_to_floor (motor_ctl st1) elev_id 1 None of
            Inl err \<Rightarrow> (st1, Raised err)
          | Inr mc \<Rightarrow>
              reset_loop
                (upd_elev (st1\<lparr> motor_ctl := mc \<rparr>) elev_id
                   (\<lambda>e. e\<lparr> floor_at := 1, active := False \<rparr>))
                ids))"

definition reset_all :: "elevator_manager \<Rightarrow> elevator_manager \<times> unit outcome" where
  "reset_all st = reset_loop st (map fst (elevators st))"

text \<open>
  A manager whose three elevators are all \<^verbatim>\<open>'moving'\<close> with empty destination queues,
  and one pending call for floor 2 with no preferred elevator.
\<close>

definition all_moving :: elevator_manager where
  "all_moving =
     (manager_init (motor_init 3))
       \<lparr> elevators :=
           [(0, new_elev\<lparr> target := Some 3, status := Moving \<rparr>),
            (1, new_elev\<lparr> target := Some 2, status := Moving \<rparr>),
            (2, new_elev\<lparr> target := Some 3, status := Moving \<rparr>)],
         call_queue := [(2, None)] \<rparr>"

section \<open>Strings and bytes\<close>

text \<open>
  A Python \<^verbatim>\<open>str\<close> is a list of Unicode code points, \<^verbatim>\<open>bytes\<close> a list of 8-bit words.
  \<^verbatim>\<open>len\<close> of a \<^verbatim>\<open>str\<close> counts code points. \<^verbatim>\<open>str.encode()\<close> and \<^verbatim>\<open>bytes.decode()\<close>
  are UTF-8; \<open>None\<close> stands for the UnicodeError they raise.
\<close>

type_synonym byte = "8 word"
type_synonym py_str = "nat list"

definition utf8_encode_char :: "nat \<Rightarrow> byte list option" where
  "utf8_encode_char c =
     (if c < 0x80 then Some [of_nat c]
      else if c < 0x800 then Some [of_nat (0xC0 + c div 64), of_nat (0x80 + c mod 64)]
      else if 0xD800 \<le> c \<and> c < 0xE000 then None
      else if c < 0x10000 then
        Some [of_nat (0xE0 + c div 4096), of_nat (0x80 + c div 64 mod 64),
              of_nat (0x80 + c mod 64)]
      else if c < 0x110000 then
        Some [of_nat (0xF0 + c div 262144), of_nat (0x80 + c div 4096 mod 64),
              of_nat (0x80 + c div 64 mod 64), of_nat (0x80 + c mod 64)]
      else None)"

fun utf8_encode :: "py_str \<Rightarrow> byte list option" where
  "utf8_encode [] = Some []"
| "utf8_encode (c # cs) =
     (case utf8_encode_char c of
        None \<Rightarrow> None
      | Some bs \<Rightarrow> (case utf8_encode cs of None \<Rightarrow> None | Some rest \<Rightarrow> Some (bs @ rest)))"

definition is_cont :: "byte \<Rightarrow> bool" where
  "is_cont b = (b AND 0xC0 = 0x80)"

definition cont_bits :: "byte \<Rightarrow> nat" where
  "cont_bits b = unat (b AND 0x3F)"

fun utf8_decode :: "byte list \<Rightarrow> py_str option" where
  "utf8_decode [] = Some []"
| "utf8_decode (b # bs) =
     (if b < 0x80 then map_option ((#) (unat b)) (utf8_decode bs)
      else if b AND 0xE0 = 0xC0 then
        (case bs of
           b1 # r \<Rightarrow>
             (let c = unat (b AND 0x1F) * 64 + cont_bits b1
              in if is_cont b1 \<and> 0x80 \<le> c then map_option ((#) c) (utf8_decode r) else None)
         | _ \<Rightarrow> None)
      else if b AND 0xF0 = 0xE0 then
        (case bs of
           b1 # b2 # r \<Rightarrow>
             (let c = unat (b AND 0x0F) * 4096 + cont_bits b1 * 64 + cont_bits b2
              in if is_cont b1 \<and> is_cont b2 \<and> 0x800 \<le> c \<and> \<not> (0xD800 \<le> c \<and> c < 0xE000)
                 then map_option ((#) c) (utf8_decode r) else None)
         | _ \<Rightarrow> None)
      else if b AND 0xF8 = 0xF0 then
        (case bs of
           b1 # b2 # b3 # r \<Rightarrow>
             (let c = unat (b AND 0x07) * 262144 + cont_bits b1 * 4096
                      + cont_bits b2 * 64 + cont_bits b3
              in if is_cont b1 \<and> is_cont b2 \<and> is_cont b3 \<and> 0x10000 \<le> c \<and> c < 0x110000
                 then map_option ((#) c) (utf8_decode r) else None)
         | _ \<Rightarrow> None)
      else None)"

text \<open>The code points a \<^verbatim>\<open>str\<close> can be encoded from: every one but the surrogates.\<close>

definition valid_cp :: "nat \<Rightarrow> bool" where
  "valid_cp c = (c < 0xD800 \<or> (0xE000 \<le> c \<and> c < 0x110000))"

text \<open>
  \<^verbatim>\<open>n.to_bytes(k, "big")\<close> raises OverflowError when \<open>n\<close> does not fit into \<open>k\<close> bytes;
  \<^verbatim>\<open>int.from_bytes(bs, "big")\<close> accepts any number of bytes.
\<close>

fun to_bytes_be :: "nat \<Rightarrow> nat \<Rightarrow> byte list" where
  "to_bytes_be 0 n = []"
| "to_bytes_be (Suc k) n = of_nat (n div 256 ^ k) # to_bytes_be k (n mod 256 ^ k)"

definition py_to_bytes :: "nat \<Rightarrow> nat \<Rightarrow> py_error + byte list" where
  "py_to_bytes n k = (if n < 256 ^ k then Inr (to_bytes_be k n) else Inl OverflowError)"

definition from_bytes_be :: "byte list \<Rightarrow> nat" where
  "from_bytes_be bs = foldl (\<lambda>acc b. acc * 256 + unat b) 0 bs"

section \<open>server/websocket.py and client/websocket.py: the frame codec\<close>

definition WS_OPCODE_TEXT :: byte where
  "WS_OPCODE_TEXT = 0x1"

text \<open>
  \<^verbatim>\<open>WebSocketServer.send_frame\<close>. The result is what has been written to the writer and
  the exception raised, if any. The length written into the header is \<^verbatim>\<open>len(data)\<close> of the
  \<^verbatim>\<open>str\<close>; the payload written after it is \<^verbatim>\<open>data.encode()\<close>. The header is written
  before the payload is encoded.
\<close>

definition send_frame :: "py_str \<Rightarrow> byte list \<times> py_error option" where
  "send_frame data =
     (case (if length data < 126 then Inr [0x80 OR WS_OPCODE_TEXT, of_nat (length data)]
            else if length data < 65536 then
              map_sum id (\<lambda>bs. [0x80 OR WS_OPCODE_TEXT, 126] @ bs) (py_to_bytes (length data) 2)
            else
              map_sum id (\<lambda>bs. [0x80 OR WS_OPCODE_TEXT, 127] @ bs) (py_to_bytes (length data) 8)) of
        Inl err \<Rightarrow> ([], Some err)
      | Inr header \<Rightarrow>
          (case utf8_encode data of
             None \<Rightarrow> (header, Some UnicodeError)
           | Some payload \<Rightarrow> (header @ payload, None)))"

text \<open>
  \<^verbatim>\<open>WebSocketClient.send_frame\<close>, the encoder of the client-to-server direction. Its body
  is the same statements, with the text opcode written as the literal \<^verbatim>\<open>0x1\<close>.
\<close>

definition client_send_frame :: "py_str \<Rightarrow> byte list \<times> py_error option" where
  "client_send_frame data =
     (case (if length data < 126 then Inr [0x80 OR 0x1, of_nat (length data)]
            else if length data < 65536 then
              map_sum id (\<lambda>bs. [0x80 OR 0x1, 126] @ bs) (py_to_bytes (length data) 2)
            else
              map_sum id (\<lambda>bs. [0x80 OR 0x1, 127] @ bs) (py_to_bytes (length data) 8)) of
        Inl err \<Rightarrow> ([], Some err)
      | Inr header \<Rightarrow>
          (case utf8_encode data of
             None \<Rightarrow> (header, Some UnicodeError)
           | Some payload \<Rightarrow> (header @ payload, None)))"

text \<open>
  \<^verbatim>\<open>WebSocketServer.receive_frame\<close> on a reader that holds the bytes \<open>s\<close> followed by
  end of stream. \<^verbatim>\<open>reader.read(n)\<close> takes the next \<open>n\<close> bytes, or as many as are left.
  The result is the value returned (\<open>None\<close> for Python's \<^verbatim>\<open>None\<close>) or the exception
  raised, and the bytes not yet read. \<^verbatim>\<open>header[1]\<close> raises IndexError on a one-byte
  header. \<^verbatim>\<open>masking_key[i % 4]\<close> raises IndexError where the key is shorter than the
  index asks for; inside \<^verbatim>\<open>receive_frame\<close> this never happens, because a key of fewer
  than four bytes is the end of the stream and the payload read after it is empty.
\<close>

definition unmask :: "byte list \<Rightarrow> byte list \<Rightarrow> py_error + byte list" where
  "unmask masking_key data =
     (if min (length data) 4 \<le> length masking_key
      then Inr (map (\<lambda>i. (data ! i) XOR (masking_key ! (i mod 4))) [0 ..< length data])
      else Inl IndexError)"

definition receive_frame :: "byte list \<Rightarrow> (py_error + py_str option) \<times> byte list" where
  "receive_frame s =
     (let header = take 2 s; s1 = drop 2 s
      in if header = [] then (Inr None, s1)
         else if length header < 2 then (Inl IndexError, s1)
         else
           let fin = drop_bit 7 ((header ! 0) AND 0x80);
               opcode = (header ! 0) AND 0x0F;
               mask = drop_bit 7 ((header ! 1) AND 0x80);
               len7 = unat ((header ! 1) AND 0x7F);
               len = (if len7 = 126 then from_bytes_be (take 2 s1)
                      else if len7 = 127 then from_bytes_be (take 8 s1)
                      else len7);
               s2 = (if len7 = 126 then drop 2 s1 else if len7 = 127 then drop 8 s1 else s1);
               masking_key = (if mask \<noteq> 0 then take 4 s2 else []);
               s3 = (if mask \<noteq> 0 then drop 4 s2 else s2);
               data = take len s3;
               s4 = drop len s3
           in (case (if mask \<noteq> 0 then unmask masking_key data else Inr data) of
                 Inl err \<Rightarrow> (Inl err, s4)
               | Inr payload \<Rightarrow>
                   if opcode = WS_OPCODE_TEXT then
                     (case utf8_decode payload of
                        None \<Rightarrow> (Inl UnicodeError, s4)
                      | Some msg \<Rightarrow> (Inr (Some msg), s4))
                   else (Inr None, s4)))"

text \<open>
  The receive loop of \<^verbatim>\<open>handle_client\<close> (\<^verbatim>\<open>while True: data = receive_frame; if not
  data: break; process_message\<close>). \<^verbatim>\<open>not data\<close> holds for \<^verbatim>\<open>None\<close> and for the empty
  string. The model returns the messages handed to \<^verbatim>\<open>process_message\<close> in order, how the
  loop ended, and the bytes left unread. \<^verbatim>\<open>process_message\<close> catches every exception
  of its handlers, so the loop goes on after it. Whichever way the loop ends, the
  \<^verbatim>\<open>finally\<close> block closes the writer.
\<close>

datatype loop_end = Loop_break | Loop_raised py_error

function handle_client_loop :: "byte list \<Rightarrow> py_str list \<times> loop_end \<times> byte list" where
  "handle_client_loop s =
     (case receive_frame s of
        (Inl err, rest) \<Rightarrow> ([], Loop_raised err, rest)
      | (Inr None, rest) \<Rightarrow> ([], Loop_break, rest)
      | (Inr (Some data), rest) \<Rightarrow>
          if data = [] then ([], Loop_break, rest)
          else (case handle_client_loop rest of (msgs, e, r) \<Rightarrow> (data # msgs, e, r)))"
  by pat_completeness auto
termination
proof (relation "measure length")
  show "wf (measure length)"
    by simp
next
  fix s :: "byte list" and res rest data and out :: "py_str option"
  assume "(res, rest) = receive_frame s" and "res = Inr out" and "out = Some data"
  then have r: "receive_frame s = (Inr (Some data), rest)"
    by simp
  have "s \<noteq> []"
    using r by (auto simp: receive_frame_def)
  moreover have "length rest \<le> length s - 2"
    using r
    by (auto simp: receive_frame_def Let_def split: if_splits sum.splits option.splits)
  ultimately show "(rest, s) \<in> measure length"
    by (cases s) auto
qed

declare handle_client_loop.simps [simp del]

text \<open>
  \<^verbatim>\<open>handle_client\<close> from the handshake on. \<open>shake\<close> is the exception that the handshake
  raised, if any, and \<open>s\<close> the bytes that follow the upgrade request on the connection.
  \<^verbatim>\<open>except Exception\<close> catches what the handshake or \<^verbatim>\<open>receive_frame\<close> raises and sets
  the LED to \<^verbatim>\<open>not_connected\<close>; the \<^verbatim>\<open>finally\<close> block runs however the \<^verbatim>\<open>try\<close> block
  ends: it clears \<^verbatim>\<open>client_connected\<close>, sets the LED to \<^verbatim>\<open>connecting\<close> and closes the
  writer. The result records the LED modes set, in order, the messages handed to
  \<^verbatim>\<open>process_message\<close>, the final value of \<^verbatim>\<open>client_connected\<close>, whether the writer has
  been closed, and the bytes of the connection that were never read.
\<close>

record client_session =
  led_modes :: "string list"
  handed :: "py_str list"
  connected_after :: bool
  writer_closed :: bool
  unread :: "byte list"

definition handle_client :: "py_error option \<Rightarrow> byte list \<Rightarrow> client_session" where
  "handle_client shake s =
     (case (case shake of
              Some err \<Rightarrow> ([], Loop_raised err, s)
            | None \<Rightarrow> handle_client_loop s) of
        (msgs, ending, rest) \<Rightarrow>
          \<lparr> led_modes =
              [''connected'']
              @ (case ending of Loop_raised err \<Rightarrow> [''not_connected''] | Loop_break \<Rightarrow> [])
              @ [''connecting''],
            handed = msgs,
            connected_after = False,
            writer_closed = True,
            unread = rest \<rparr>)"

section \<open>JSON values and the Python operations applied to them\<close>

text \<open>
  The value that \<^verbatim>\<open>json.loads\<close> returns. An object is its list of members in order,
  with distinct keys. Numbers are integers; a number with a fraction or an exponent is
  not modelled. Strings are lists of 8-bit characters.
\<close>

datatype json =
  JNull | JBool bool | JNum int | JStr string | JArr "json list" | JObj "(string \<times> json) list"

definition ebind :: "(py_error + 'a) \<Rightarrow> ('a \<Rightarrow> py_error + 'b) \<Rightarrow> py_error + 'b" where
  "ebind x f = (case x of Inl err \<Rightarrow> Inl err | Inr v \<Rightarrow> f v)"

text \<open>\<^verbatim>\<open>p in s\<close> on two strings: \<open>p\<close> occurs in \<open>s\<close>.\<close>

fun is_infix :: "'a list \<Rightarrow> 'a list \<Rightarrow> bool" where
  "is_infix p [] = (p = [])"
| "is_infix p (x # xs) = (take (length p) (x # xs) = p \<or> is_infix p xs)"

text \<open>
  \<^verbatim>\<open>key in data\<close> for a string \<open>key\<close>: membership of the key in a dictionary, of the
  string in a list, the substring test on a string, and TypeError on a number, a boolean
  or \<^verbatim>\<open>None\<close>.
\<close>

definition py_in :: "string \<Rightarrow> json \<Rightarrow> py_error + bool" where
  "py_in key data =
     (case data of
        JObj kvs \<Rightarrow> Inr (map_of kvs key \<noteq> None)
      | JArr xs \<Rightarrow> Inr (List.member xs (JStr key))
      | JStr s \<Rightarrow> Inr (is_infix key s)
      | _ \<Rightarrow> Inl TypeError)"

text \<open>\<^verbatim>\<open>data[key]\<close> for a string \<open>key\<close>, and \<^verbatim>\<open>data.get(key, default)\<close>.\<close>

definition py_getitem :: "json \<Rightarrow> string \<Rightarrow> py_error + json" where
  "py_getitem data key =
     (case data of
        JObj kvs \<Rightarrow> (case map_of kvs key of None \<Rightarrow> Inl KeyError | Some v \<Rightarrow> Inr v)
      | _ \<Rightarrow> Inl TypeError)"

definition py_get :: "json \<Rightarrow> string \<Rightarrow> json \<Rightarrow> py_error + json" where
  "py_get data key default_value =
     (case data of
        JObj kvs \<Rightarrow> Inr (case map_of kvs key of None \<Rightarrow> default_value | Some v \<Rightarrow> v)
      | _ \<Rightarrow> Inl AttributeError)"

text \<open>
  \<^verbatim>\<open>int(v)\<close>: a number is itself, a boolean 0 or 1, a string is parsed as an optional
  sign and decimal digits between optional white space (ValueError otherwise), anything
  else raises TypeError. The digits may be written in groups separated by single
  underscores, as in \<^verbatim>\<open>int("1_000")\<close>; an underscore at either end of the digits, or two
  in a row, is a ValueError.
\<close>

definition is_space :: "nat \<Rightarrow> bool" where
  "is_space c = (c = 32 \<or> (9 \<le> c \<and> c \<le> 13))"

definition strip_by :: "('a \<Rightarrow> bool) \<Rightarrow> 'a list \<Rightarrow> 'a list" where
  "strip_by P xs = rev (dropWhile P (rev (dropWhile P xs)))"

definition is_digit :: "char \<Rightarrow> bool" where
  "is_digit c = (48 \<le> (of_char c :: nat) \<and> (of_char c :: nat) \<le> 57)"

definition digits_value :: "string \<Rightarrow> int" where
  "digits_value ds = foldl (\<lambda>acc c. acc * 10 + (int (of_char c) - 48)) 0 ds"

fun digit_groups :: "string \<Rightarrow> string list" where
  "digit_groups [] = [[]]"
| "digit_groups (c # cs) =
     (if c = CHR ''_'' then [] # digit_groups cs
      else (case digit_groups cs of g # gs \<Rightarrow> (c # g) # gs | [] \<Rightarrow> [[c]]))"

definition parse_int :: "string \<Rightarrow> py_error + int" where
  "parse_int s =
     (case strip_by (\<lambda>c. is_space (of_char c)) s of
        [] \<Rightarrow> Inl ValueError
      | c # cs \<Rightarrow>
          (let groups = digit_groups (if c = CHR ''-'' \<or> c = CHR ''+'' then cs else c # cs)
           in if list_all (\<lambda>g. g \<noteq> [] \<and> list_all is_digit g) groups
              then Inr (if c = CHR ''-'' then - digits_value (concat groups)
                        else digits_value (concat groups))
              else Inl ValueError))"

definition py_int :: "json \<Rightarrow> py_error + int" where
  "py_int v =
     (case v of
        JNum n \<Rightarrow> Inr n
      | JBool b \<Rightarrow> Inr (if b then 1 else 0)
      | JStr s \<Rightarrow> parse_int s
      | _ \<Rightarrow> Inl TypeError)"

text \<open>
  Hashing a dictionary key: a list or a dictionary is unhashable (TypeError), and as keys
  \<^verbatim>\<open>True\<close> and \<^verbatim>\<open>False\<close> are equal to 1 and 0.
\<close>

definition hashable :: "json \<Rightarrow> bool" where
  "hashable v = (case v of JArr xs \<Rightarrow> False | JObj kvs \<Rightarrow> False | _ \<Rightarrow> True)"

definition dict_key :: "json \<Rightarrow> json" where
  "dict_key v = (case v of JBool b \<Rightarrow> JNum (if b then 1 else 0) | _ \<Rightarrow> v)"

text \<open>The truth value of \<^verbatim>\<open>if v:\<close>.\<close>

definition truthy :: "json \<Rightarrow> bool" where
  "truthy v =
     (case v of
        JNull \<Rightarrow> False
      | JBool b \<Rightarrow> b
      | JNum n \<Rightarrow> n \<noteq> 0
      | JStr s \<Rightarrow> s \<noteq> []
      | JArr xs \<Rightarrow> xs \<noteq> []
      | JObj kvs \<Rightarrow> kvs \<noteq> [])"

section \<open>server/websocket.py: the command handlers\<close>

text \<open>
  The fields of \<^verbatim>\<open>WebSocketServer\<close> that its handlers read or write. \<open>tasks\<close> is the
  dictionary \<^verbatim>\<open>self.tasks\<close> as a list of key and value. A handler's result is the new
  state, the values passed to \<^verbatim>\<open>send_frame\<close> through \<^verbatim>\<open>json.dumps\<close>, in order, and how
  the handler ended.
\<close>

record ws_server =
  elevator :: elevator_manager
  tasks :: "(json \<times> json) list"
  client_connected :: bool

definition server_init :: ws_server where
  "server_init =
     \<lparr> elevator = manager_init (motor_init 3), tasks = [], client_connected = False \<rparr>"

definition call_response :: "int \<Rightarrow> int \<Rightarrow> string \<Rightarrow> json" where
  "call_response floor_no elevator_id st =
     JObj [(''response'',
            JObj [(''type'', JStr ''call''), (''floor'', JNum floor_no),
                  (''elevator'', JNum elevator_id), (''status'', JStr st)])]"

definition task_response :: "int \<Rightarrow> int \<Rightarrow> string \<Rightarrow> json" where
  "task_response elevator_id floor_no st =
     JObj [(''response'',
            JObj [(''type'', JStr ''task''), (''elevator'', JNum elevator_id),
                  (''floor'', JNum floor_no), (''status'', JStr st)])]"

definition reset_response :: "string \<Rightarrow> json" where
  "reset_response st =
     JObj [(''response'',
            JObj [(''type'', JStr ''reset''), (''elevator'', JNum 6),
                  (''floor'', JNum 1), (''status'', JStr st)])]"

definition not_found_response :: "json \<Rightarrow> json" where
  "not_found_response task_id =
     JObj [(''response'', JObj [(''task_id'', task_id), (''status'', JStr ''not_found'')])]"

text \<open>
  The frame sent by the \<^verbatim>\<open>except\<close> branch of \<^verbatim>\<open>process_message\<close>. The text of
  \<^verbatim>\<open>str(e)\<close> is represented by the name of the exception.
\<close>

definition exc_text :: "py_error \<Rightarrow> string" where
  "exc_text err =
     (case err of
        ValueError \<Rightarrow> ''ValueError'' | IndexError \<Rightarrow> ''IndexError'' | KeyError \<Rightarrow> ''KeyError''
      | TypeError \<Rightarrow> ''TypeError'' | AttributeError \<Rightarrow> ''AttributeError''
      | UnicodeError \<Rightarrow> ''UnicodeError'' | OverflowError \<Rightarrow> ''OverflowError'')"

definition error_response :: "string \<Rightarrow> json" where
  "error_response msg = JObj [(''error'', JStr msg)]"

text \<open>
  \<^verbatim>\<open>handle_call\<close>. The task created at its end runs \<^verbatim>\<open>_assign_floor\<close> after the
  handler has returned, and the event loop drops its result, as it does for every task
  nobody awaits. In the code that task runs interleaved with the handlers of the messages
  that follow, switching at each \<^verbatim>\<open>await\<close>; \<open>spawn_assign_floor\<close> is the one schedule in
  which the task runs to its end before the next message is read. It is exact for a
  session of one message. For longer sessions only properties of \<^verbatim>\<open>self.tasks\<close>, which
  \<^verbatim>\<open>_assign_floor\<close> neither reads nor writes, are stated below.
\<close>

definition call_args :: "json \<Rightarrow> py_error + int \<times> int" where
  "call_args call_data =
     ebind (py_getitem call_data ''floor'') (\<lambda>fv.
     ebind (py_int fv) (\<lambda>floor_no.
     ebind (py_get call_data ''elevator'' (JNum 0)) (\<lambda>ev.
     ebind (py_int ev) (\<lambda>elevator_id. Inr (floor_no, elevator_id)))))"

definition spawn_assign_floor :: "elevator_manager \<Rightarrow> int option \<Rightarrow> int \<Rightarrow> elevator_manager" where
  "spawn_assign_floor em res_elevator floor_no =
     (case res_elevator of None \<Rightarrow> em | Some i \<Rightarrow> fst (assign_floor em i floor_no))"

definition handle_call :: "ws_server \<Rightarrow> json \<Rightarrow> ws_server \<times> json list \<times> unit outcome" where
  "handle_call srv call_data =
     (case call_args call_data of
        Inl err \<Rightarrow> (srv, [], Raised err)
      | Inr (floor_no, elevator_id) \<Rightarrow>
          (case call_elevator (elevator srv) floor_no (Some elevator_id) of
             (em, Returned (res_elevator, res_floor)) \<Rightarrow>
               (srv\<lparr> elevator := spawn_assign_floor em res_elevator floor_no \<rparr>,
                [call_response floor_no elevator_id ''processing'',
                 call_response floor_no elevator_id ''completed''],
                Returned ())
           | (em, Raised err) \<Rightarrow>
               (srv\<lparr> elevator := em \<rparr>,
                [call_response floor_no elevator_id ''processing''], Raised err)
           | (em, Blocked) \<Rightarrow>
               (srv\<lparr> elevator := em \<rparr>,
                [call_response floor_no elevator_id ''processing''], Blocked)))"

text \<open>\<^verbatim>\<open>handle_task\<close>.\<close>

definition task_args :: "json \<Rightarrow> py_error + int \<times> int" where
  "task_args task_data =
     ebind (py_get task_data ''motor'' (JNum 0)) (\<lambda>mv.
     ebind (py_int mv) (\<lambda>elevator_id.
     ebind (py_getitem task_data ''floor'') (\<lambda>fv.
     ebind (py_int fv) (\<lambda>floor_no. Inr (elevator_id, floor_no)))))"

definition handle_task :: "ws_server \<Rightarrow> json \<Rightarrow> ws_server \<times> json list \<times> unit outcome" where
  "handle_task srv task_data =
     (case task_args task_data of
        Inl err \<Rightarrow> (srv, [], Raised err)
      | Inr (elevator_id, floor_no) \<Rightarrow>
          (case send_elevator (elevator srv) elevator_id floor_no of
             (em, Returned u) \<Rightarrow>
               (srv\<lparr> elevator := em \<rparr>,
                [task_response elevator_id floor_no ''processing'',
                 task_response elevator_id floor_no ''completed''],
                Returned ())
           | (em, Raised err) \<Rightarrow>
               (srv\<lparr> elevator := em \<rparr>,
                [task_response elevator_id floor_no ''processing''], Raised err)
           | (em, Blocked) \<Rightarrow>
               (srv\<lparr> elevator := em \<rparr>,
                [task_response elevator_id floor_no ''processing''], Blocked)))"

text \<open>
  \<^verbatim>\<open>handle_status\<close>. \<^verbatim>\<open>task_id in self.tasks\<close> hashes the key first. For a stored task
  the response is built from its members \<^verbatim>\<open>motor\<close>, \<^verbatim>\<open>floor\<close>, \<^verbatim>\<open>action\<close> and
  \<^verbatim>\<open>status\<close>.
\<close>

definition found_response :: "json \<Rightarrow> json \<Rightarrow> py_error + json" where
  "found_response task_id task =
     ebind (py_getitem task ''motor'') (\<lambda>m.
     ebind (py_getitem task ''floor'') (\<lambda>f.
     ebind (py_getitem task ''action'') (\<lambda>a.
     ebind (py_getitem task ''status'') (\<lambda>s.
       Inr (JObj [(''response'',
                  JObj [(''task_id'', task_id), (''motor'', m), (''floor'', f),
                        (''action'', a), (''status'', s)])])))))"

definition handle_status :: "ws_server \<Rightarrow> json \<Rightarrow> ws_server \<times> json list \<times> unit outcome" where
  "handle_status srv status_data =
     (case py_getitem status_data ''task_id'' of
        Inl err \<Rightarrow> (srv, [], Raised err)
      | Inr task_id \<Rightarrow>
          if \<not> hashable task_id then (srv, [], Raised TypeError)
          else
            (case map_of (map (\<lambda>(k, v). (dict_key k, v)) (tasks srv)) (dict_key task_id) of
               Some task \<Rightarrow>
                 (case found_response task_id task of
                    Inl err \<Rightarrow> (srv, [], Raised err)
                  | Inr response \<Rightarrow> (srv, [response], Returned ()))
             | None \<Rightarrow> (srv, [not_found_response task_id], Returned ())))"

text \<open>\<^verbatim>\<open>handle_reset\<close>.\<close>

definition handle_reset :: "ws_server \<Rightarrow> ws_server \<times> json list \<times> unit outcome" where
  "handle_reset srv =
     (case reset_all (elevator srv) of
        (em, Returned u) \<Rightarrow>
          (srv\<lparr> elevator := em \<rparr>,
           [reset_response ''processing'', reset_response ''completed''], Returned ())
      | (em, Raised err) \<Rightarrow>
          (srv\<lparr> elevator := em \<rparr>, [reset_response ''processing''], Raised err)
      | (em, Blocked) \<Rightarrow>
          (srv\<lparr> elevator := em \<rparr>, [reset_response ''processing''], Blocked))"

text \<open>
  \<^verbatim>\<open>process_message\<close>. Its argument is the outcome of \<^verbatim>\<open>json.loads(message)\<close>: the
  value, or the exception raised on text that is not JSON. The \<^verbatim>\<open>if\<close>/\<^verbatim>\<open>elif\<close> chain
  tests the four keys in order; every exception raised inside the \<^verbatim>\<open>try\<close> is answered
  with an error frame.
\<close>

definition dispatch :: "ws_server \<Rightarrow> json \<Rightarrow> ws_server \<times> json list \<times> unit outcome" where
  "dispatch srv data =
     (case py_in ''call'' data of
        Inl err \<Rightarrow> (srv, [], Raised err)
      | Inr True \<Rightarrow>
          (case py_getitem data ''call'' of
             Inl err \<Rightarrow> (srv, [], Raised err)
           | Inr v \<Rightarrow> handle_call srv v)
      | Inr False \<Rightarrow>
          (case py_in ''task'' data of
             Inl err \<Rightarrow> (srv, [], Raised err)
           | Inr True \<Rightarrow>
               (case py_getitem data ''task'' of
                  Inl err \<Rightarrow> (srv, [], Raised err)
                | Inr v \<Rightarrow> handle_task srv v)
           | Inr False \<Rightarrow>
               (case py_in ''status'' data of
                  Inl err \<Rightarrow> (srv, [], Raised err)
                | Inr True \<Rightarrow>
                    (case py_getitem data ''status'' of
                       Inl err \<Rightarrow> (srv, [], Raised err)
                     | Inr v \<Rightarrow> handle_status srv v)
                | Inr False \<Rightarrow>
                    (case py_in ''reset'' data of
                       Inl err \<Rightarrow> (srv, [], Raised err)
                     | Inr True \<Rightarrow> handle_reset srv
                     | Inr False \<Rightarrow>
                         (srv, [error_response ''Invalid request''], Returned ())))))"

definition process_message ::
  "ws_server \<Rightarrow> py_error + json \<Rightarrow> ws_server \<times> json list \<times> unit outcome" where
  "process_message srv loaded =
     (case (case loaded of Inl err \<Rightarrow> (srv, [], Raised err) | Inr data \<Rightarrow> dispatch srv data) of
        (srv', frames, Raised err) \<Rightarrow>
          (srv', frames @ [error_response (exc_text err)], Returned ())
      | (srv', frames, Returned u) \<Rightarrow> (srv', frames, Returned ())
      | (srv', frames, Blocked) \<Rightarrow> (srv', frames, Blocked))"

text \<open>
  A session: the messages of one connection processed in order. A handler that waits for
  ever for the lock ends the run there.
\<close>

fun session_run ::
  "ws_server \<Rightarrow> (py_error + json) list \<Rightarrow> ws_server \<times> json list \<times> unit outcome" where
  "session_run srv [] = (srv, [], Returned ())"
| "session_run srv (m # ms) =
     (case process_message srv m of
        (srv', frames, Returned u) \<Rightarrow>
          (case session_run srv' ms of (srv'', frames', out) \<Rightarrow> (srv'', frames @ frames', out))
      | (srv', frames, out) \<Rightarrow> (srv', frames, out))"

section \<open>server/websocket.py: the handshake\<close>

text \<open>A string literal of the source as a \<^verbatim>\<open>str\<close>, and as the bytes of its encoding.\<close>

definition str_of :: "string \<Rightarrow> py_str" where
  "str_of s = map of_char s"

definition bytes_of :: "string \<Rightarrow> byte list" where
  "bytes_of s = map of_char s"

definition crlf :: string where
  "crlf = [CHR 0x0D, CHR 0x0A]"

definition WS_MAGIC_STRING :: string where
  "WS_MAGIC_STRING = ''258EAFA5-E914-47DA-95CA-C5AB0DC85B11''"

text \<open>
  \<^verbatim>\<open>s.split(sep, 1)\<close> where it has two parts: the text before and after the first
  occurrence of \<open>sep\<close>. \<open>None\<close> where \<open>sep\<close> does not occur; the unpacking
  \<^verbatim>\<open>key, value = ...\<close> then raises ValueError.
\<close>

fun split_once :: "'a list \<Rightarrow> 'a list \<Rightarrow> ('a list \<times> 'a list) option" where
  "split_once sep [] = None"
| "split_once sep (x # xs) =
     (if take (length sep) (x # xs) = sep then Some ([], drop (length sep) (x # xs))
      else map_option (\<lambda>(a, b). (x # a, b)) (split_once sep xs))"

text \<open>
  \<^verbatim>\<open>ubinascii.b2a_base64\<close>: the base64 text of the bytes, followed by a newline.
\<close>

definition b64_char :: "nat \<Rightarrow> byte" where
  "b64_char n =
     of_nat (if n < 26 then 65 + n else if n < 52 then 71 + n else if n < 62 then n - 4
             else if n = 62 then 43 else 47)"

fun b64_groups :: "byte list \<Rightarrow> byte list" where
  "b64_groups [] = []"
| "b64_groups [a] =
     [b64_char (unat a div 4), b64_char (unat a mod 4 * 16), 0x3D, 0x3D]"
| "b64_groups [a, b] =
     [b64_char (unat a div 4), b64_char (unat a mod 4 * 16 + unat b div 16),
      b64_char (unat b mod 16 * 4), 0x3D]"
| "b64_groups (a # b # c # rest) =
     [b64_char (unat a div 4), b64_char (unat a mod 4 * 16 + unat b div 16),
      b64_char (unat b mod 16 * 4 + unat c div 64), b64_char (unat c mod 64)]
     @ b64_groups rest"

definition b2a_base64 :: "byte list \<Rightarrow> byte list" where
  "b2a_base64 bs = b64_groups bs @ [0x0A]"

text \<open>
  The header loop of \<^verbatim>\<open>handshake\<close>. The argument is what the successive calls of
  \<^verbatim>\<open>reader.readline()\<close> return; once the list is used up the stream has ended and
  \<^verbatim>\<open>readline\<close> returns \<^verbatim>\<open>b""\<close>. A line is decoded, stripped of white space at both
  ends and split at its first \<^verbatim>\<open>": "\<close>; a later header with the same name replaces the
  earlier one. White space is what MicroPython's \<^verbatim>\<open>strip\<close> removes: the space and the
  characters 9 to 13.
\<close>

fun read_headers ::
  "byte list list \<Rightarrow> (py_str \<rightharpoonup> py_str) \<Rightarrow> py_error + (py_str \<rightharpoonup> py_str)" where
  "read_headers [] headers = Inr headers"
| "read_headers (line # rest) headers =
     (if line = bytes_of crlf \<or> line = [] then Inr headers
      else
        (case utf8_decode line of
           None \<Rightarrow> Inl UnicodeError
         | Some t \<Rightarrow>
             (case split_once (str_of '': '') (strip_by is_space t) of
                None \<Rightarrow> Inl ValueError
              | Some (key, val) \<Rightarrow> read_headers rest (headers(key \<mapsto> val)))))"

text \<open>
  \<^verbatim>\<open>handshake\<close>. The first line read is the request line, which is not looked at.
  \<open>sha1\<close> stands for \<^verbatim>\<open>hashlib.sha1(...).digest()\<close>. The result is the exception raised
  or the bytes written to the writer.
\<close>

definition response_head :: string where
  "response_head =
     ''HTTP/1.1 101 Switching Protocols'' @ crlf @
     ''Upgrade: websocket'' @ crlf @
     ''Connection: Upgrade'' @ crlf @
     ''Sec-WebSocket-Accept: ''"

definition handshake :: "(byte list \<Rightarrow> byte list) \<Rightarrow> byte list list \<Rightarrow> py_error + byte list" where
  "handshake sha1 lines =
     (case read_headers (tl lines) Map.empty of
        Inl err \<Rightarrow> Inl err
      | Inr headers \<Rightarrow>
          (case headers (str_of ''Sec-WebSocket-Key'') of
             None \<Rightarrow> Inl ValueError
           | Some key \<Rightarrow>
               (case utf8_encode (key @ str_of WS_MAGIC_STRING) of
                  None \<Rightarrow> Inl UnicodeError
                | Some key_bytes \<Rightarrow>
                    (case utf8_decode
                            (strip_by (\<lambda>b. is_space (unat b)) (b2a_base64 (sha1 key_bytes))) of
                       None \<Rightarrow> Inl UnicodeError
                     | Some accept_key \<Rightarrow>
                         (case utf8_encode
                                 (str_of response_head @ accept_key @ str_of (crlf @ crlf)) of
                            None \<Rightarrow> Inl UnicodeError
                          | Some response \<Rightarrow> Inr response)))))"

text \<open>
  The lines of the upgrade request that \<^verbatim>\<open>WebSocketClient.handshake\<close> sends to a server
  at 192.168.4.1, as \<^verbatim>\<open>readline\<close> returns them.
\<close>

definition client_request :: "byte list list" where
  "client_request =
     [bytes_of (''GET / HTTP/1.1'' @ crlf),
      bytes_of (''Host: 192.168.4.1'' @ crlf),
      bytes_of (''Upgrade: websocket'' @ crlf),
      bytes_of (''Connection: Upgrade'' @ crlf),
      bytes_of (''Sec-WebSocket-Key: dGhlIHNhbXBsZSBub25jZQ=='' @ crlf),
      bytes_of (''Sec-WebSocket-Version: 13'' @ crlf),
      bytes_of crlf]"

text \<open>
  The text of a header line as a client writes it: the name, a colon and a space, the
  value, and the line end. A header is called well formed where its name contains neither
  a colon nor white space and its value is not empty and does not end in white space.
\<close>

definition header_text :: "py_str \<times> py_str \<Rightarrow> py_str" where
  "header_text h = fst h @ str_of '': '' @ snd h @ str_of crlf"

definition well_formed :: "py_str \<times> py_str \<Rightarrow> bool" where
  "well_formed h =
     (list_all (\<lambda>c. c \<noteq> 58 \<and> \<not> is_space c) (fst h)
      \<and> snd h \<noteq> [] \<and> \<not> is_space (last (snd h)))"

definition client_headers :: "(py_str \<times> py_str) list" where
  "client_headers =
     [(str_of ''Host'', str_of ''192.168.4.1''),
      (str_of ''Upgrade'', str_of ''websocket''),
      (str_of ''Connection'', str_of ''Upgrade''),
      (str_of ''Sec-WebSocket-Key'', str_of ''dGhlIHNhbXBsZSBub25jZQ==''),
      (str_of ''Sec-WebSocket-Version'', str_of ''13'')]"

section \<open>client/pairing.py: discovery\<close>

text \<open>
  What one call of \<^verbatim>\<open>self.sock.recvfrom(1024)\<close> on the non-blocking socket gives: no
  datagram (the call raises OSError), or a datagram, given as the outcome of
  \<^verbatim>\<open>json.loads(data.decode())\<close> on it. \<open>recv i\<close> is the outcome of the call number \<open>i\<close>.
  The trace lists the datagrams sent, the calls of \<^verbatim>\<open>recvfrom\<close> and the sleeps, in order;
  \<^verbatim>\<open>sendto\<close> is taken to succeed.
\<close>

datatype datagram = No_data | Datagram "py_error + json"

datatype net_event = Sendto json json | Recvfrom | Sleep_s nat

text \<open>
  The \<^verbatim>\<open>try\<close> block of one polling round: the value returned from inside it, if any. A
  datagram that is not JSON, is not an object (\<^verbatim>\<open>.get\<close> raises AttributeError), is not
  of type \<^verbatim>\<open>hello\<close>, or is a \<^verbatim>\<open>hello\<close> without \<^verbatim>\<open>ip\<close> (KeyError) returns nothing.
\<close>

definition is_hello :: "datagram \<Rightarrow> bool" where
  "is_hello d =
     (case d of
        Datagram (Inr (JObj kvs)) \<Rightarrow> map_of kvs ''type'' = Some (JStr ''hello'')
      | _ \<Rightarrow> False)"

definition hello_ip :: "datagram \<Rightarrow> json option" where
  "hello_ip d =
     (case d of
        Datagram (Inr (JObj kvs)) \<Rightarrow>
          (if map_of kvs ''type'' = Some (JStr ''hello'') then map_of kvs ''ip'' else None)
      | _ \<Rightarrow> None)"

text \<open>
  \<^verbatim>\<open>_wait_for_response\<close>: the loop \<^verbatim>\<open>for i in range(10)\<close>, with \<open>n\<close> rounds left before
  round \<open>i\<close>. The result \<open>None\<close> is the \<^verbatim>\<open>return None\<close> after the loop.
\<close>

fun wait_rounds :: "(nat \<Rightarrow> datagram) \<Rightarrow> nat \<Rightarrow> nat \<Rightarrow> json option \<times> net_event list" where
  "wait_rounds recv i 0 = (None, [])"
| "wait_rounds recv i (Suc n) =
     (case hello_ip (recv i) of
        Some ip \<Rightarrow> (Some ip, [Recvfrom])
      | None \<Rightarrow>
          (case wait_rounds recv (Suc i) n of
             (r, evs) \<Rightarrow> (r, Recvfrom # Sleep_s 1 # evs)))"

definition wait_for_response :: "(nat \<Rightarrow> datagram) \<Rightarrow> json option \<times> net_event list" where
  "wait_for_response recv = wait_rounds recv 0 10"

text \<open>
  \<^verbatim>\<open>Pairing.start\<close> for a client with address \<open>ip\<close> and hardware id \<open>mac\<close>: five
  broadcasts one second apart, then the wait, then the confirmation if the wait gave a
  true value; \<^verbatim>\<open>sendto\<close> to an address that is not a string raises. The result
  \<open>Inr None\<close> is \<^verbatim>\<open>return None\<close>.
\<close>

definition pairing_message :: "string \<Rightarrow> string \<Rightarrow> json" where
  "pairing_message ip mac =
     JObj [(''type'', JStr ''pairing''), (''ip'', JStr ip),
           (''hostname'', JStr ''esp32-client''), (''mac'', JStr mac)]"

definition paired_message :: "json \<Rightarrow> json" where
  "paired_message server_ip = JObj [(''type'', JStr ''paired''), (''ip'', server_ip)]"

definition broadcasts :: "string \<Rightarrow> string \<Rightarrow> net_event list" where
  "broadcasts ip mac =
     concat (replicate 5 [Sendto (JStr ''255.255.255.255'') (pairing_message ip mac), Sleep_s 1])"

definition start ::
  "string \<Rightarrow> string \<Rightarrow> (nat \<Rightarrow> datagram) \<Rightarrow> (py_error + json option) \<times> net_event list" where
  "start ip mac recv =
     (case wait_for_response recv of
        (Some server_ip, evs) \<Rightarrow>
          (if truthy server_ip then
             (case server_ip of
                JStr addr \<Rightarrow>
                  (Inr (Some server_ip),
                   broadcasts ip mac @ evs @ [Sendto server_ip (paired_message server_ip)])
              | _ \<Rightarrow> (Inl TypeError, broadcasts ip mac @ evs))
           else (Inr None, broadcasts ip mac @ evs))
      | (None, evs) \<Rightarrow> (Inr None, broadcasts ip mac @ evs))"

section \<open>Properties of the motion profile\<close>







section \<open>Properties of a move\<close>

lemma rotate_loop_keeps_floor:
  "current_floor (rotate_loop mc m steps current_step stop_at) = current_floor mc"
proof (induction mc m steps current_step stop_at rule: rotate_loop.induct)
  case (1 mc m steps current_step stop_at)
  show ?case
  proof (cases "steps \<le> current_step \<or> stop_request mc ! m")
    case True
    then show ?thesis by (auto simp: rotate_loop.simps)
  next
    case False
    then show ?thesis
      using "1.IH" [OF _ _ refl refl]
      by (subst rotate_loop.simps) (simp add: Let_def)
  qed
qed

text \<open>
  With no stop requested, the loop produces every remaining step pulse: a complete move
  from floor 1 to floor 3 is 1100 pulses.
\<close>

lemma rotate_loop_full_move:
  assumes "m < length (motors mc)" and "\<not> stop_request mc ! m"
  shows "pulses (motors (rotate_loop mc m steps current_step None) ! m)
       = pulses (motors mc ! m) + (steps - current_step)"
  using assms
proof (induction mc m steps current_step "None :: nat option" rule: rotate_loop.induct)
  case (1 mc m steps current_step)
  show ?case
  proof (cases "steps \<le> current_step")
    case True
    then show ?thesis by (simp add: rotate_loop.simps)
  next
    case False
    let ?mc1 = "mc\<lparr> motors := (motors mc)[m := pulse_step (motors mc ! m)] \<rparr>"
    have step: "rotate_loop mc m steps current_step None
        = rotate_loop ?mc1 m steps (Suc current_step) None"
      using False "1.prems"(2) by (subst rotate_loop.simps) (simp add: Let_def)
    have "pulses (motors (rotate_loop ?mc1 m steps (Suc current_step) None) ! m)
        = pulses (motors ?mc1 ! m) + (steps - Suc current_step)"
      using False "1.prems" by (intro "1.hyps") (simp_all add: Let_def)
    then show ?thesis
      using False "1.prems"(1) by (simp add: step pulse_step_def)
  qed
qed

text \<open>
  A move that returns has stored the requested floor, whatever happened to the loop: the
  result does not depend on \<open>stop_at\<close>.
\<close>

lemma move_to_floor_stores_target:
  assumes "move_to_floor mc motor_index target_floor stop_at = Inr mc'"
    and "norm_index (length (current_floor mc)) motor_index = Some m"
  shows "current_floor mc' ! m = target_floor"
proof -
  have m: "m < length (current_floor mc)"
    using assms(2) by (auto simp: norm_index_def split: if_splits)
  show ?thesis
    using assms m
    by (auto simp: move_to_floor_def rotate_motor_def enable_motor_def Let_def
          rotate_loop_keeps_floor split: if_splits option.splits sum.splits)
qed

text \<open>
  Claim C1, evaluated on the code. Motor 0 stands at floor 1 and is sent to floor 3, a
  move of 1100 steps. \<^verbatim>\<open>stop_motor(0)\<close> is called during the delays of the first step.
  The loop leaves at its next check, after one step pulse, and \<^verbatim>\<open>move_to_floor\<close>
  returns with floor 3 recorded for motor 0: the requested target, not the floor reached.
\<close>

theorem C1_aborted_move_records_target:
  "move_to_floor (motor_init 3) 0 3 (Some 0) =
     Inr \<lparr> motors =
             [\<lparr> step_pin = False, dir_pin = False, enable_pin = False, pulses = 1 \<rparr>,
              \<lparr> step_pin = False, dir_pin = False, enable_pin = False, pulses = 0 \<rparr>,
              \<lparr> step_pin = False, dir_pin = False, enable_pin = False, pulses = 0 \<rparr>],
           moving_status = [False, False, False],
           stop_request = [True, False, False],
           current_steps = [0, 0, 0],
           current_floor = [3, 1, 1] \<rparr>"
  by (simp add: move_to_floor_def motor_init_def norm_index_def rotate_motor_def
        STEPS_PER_FLOOR_def enable_motor_def Let_def rotate_loop.simps pulse_step_def
        numeral_3_eq_3)

section \<open>Properties of the dispatcher\<close>

text \<open>
  \<^verbatim>\<open>_select_best_elevator\<close> never returns \<^verbatim>\<open>None\<close>: with no idle elevator it returns
  the first elevator with the shortest queue.
\<close>

lemma select_body_never_None: "select_body els floor_no \<noteq> Returned None"
  by (simp add: select_body_def split: option.splits list.splits prod.splits)

text \<open>
  Claim C2, evaluated on the code. All three elevators are moving and the call
  \<open>(2, None)\<close> is pending. \<^verbatim>\<open>_select_best_elevator\<close> answers elevator 0, a busy one, and
  not \<^verbatim>\<open>None\<close>, so the branch of \<^verbatim>\<open>_process_queues\<close> that appends the call again and
  sleeps one second is not taken. The step itself takes the call off the queue and then
  waits for ever for the lock it holds: the call is in no queue any more.
\<close>

theorem C2_busy_call_not_requeued:
  "select_body (elevators all_moving) 2 = Returned (Some 0)
   \<and> process_queues_step all_moving =
       (all_moving\<lparr> call_queue := [], lock := True \<rparr>, Step_blocked)"
  by (simp add: select_body_def all_moving_def manager_init_def new_elev_def
        process_queues_step_def select_best_elevator_def)

section \<open>Properties of the frame codec\<close>

lemma mask_bit_zero: "drop_bit 7 (b AND 0x80) = 0 \<longleftrightarrow> b AND 0x80 = (0 :: byte)"
proof -
  have p: "(0x80 :: byte) = 2 ^ 7"
    by simp
  have a: "b AND 0x80 = 0 \<longleftrightarrow> \<not> bit b 7"
    by (simp only: p and_exp_eq_0_iff_not_bit)
  have "drop_bit 7 (b AND 0x80) = drop_bit 7 b AND 1"
    by simp
  also have "\<dots> = 0 \<longleftrightarrow> even (drop_bit 7 b)"
    by (simp add: and_one_eq mod_2_eq_odd)
  finally show ?thesis
    using a by (simp add: bit_iff_odd_drop_bit)
qed

lemma utf8_encode_ascii:
  "list_all (\<lambda>c. c < 128) m \<Longrightarrow> utf8_encode m = Some (map of_nat m)"
  by (induction m) (simp_all add: utf8_encode_char_def)

lemma ascii_byte:
  assumes "c < 128"
  shows "(of_nat c :: byte) < 0x80" and "unat (of_nat c :: byte) = c"
proof -
  show u: "unat (of_nat c :: byte) = c"
    using assms by (simp add: unat_of_nat)
  then show "(of_nat c :: byte) < 0x80"
    using assms by (simp add: word_less_nat_alt)
qed

lemma utf8_decode_ascii:
  "list_all (\<lambda>c. c < 128) m \<Longrightarrow> utf8_decode (map of_nat m) = Some m"
  by (induction m) (simp_all add: ascii_byte)

lemma to_bytes_be_length: "length (to_bytes_be k n) = k"
  by (induction k arbitrary: n) simp_all

lemma foldl_to_bytes_be:
  "n < 256 ^ k \<Longrightarrow>
   foldl (\<lambda>acc b. acc * 256 + unat b) a (to_bytes_be k n) = a * 256 ^ k + n"
proof (induction k arbitrary: n a)
  case 0
  then show ?case by simp
next
  case (Suc k)
  have q: "n div 256 ^ k < 256"
    using Suc.prems by (simp add: less_mult_imp_div_less mult.commute)
  have r: "n mod 256 ^ k < 256 ^ k"
    by simp
  have "unat (of_nat (n div 256 ^ k) :: byte) = n div 256 ^ k"
    using q by (simp add: unat_of_nat)
  then show ?case
    using Suc.IH [OF r, of "a * 256 + n div 256 ^ k"]
    by (simp add: algebra_simps)
qed

lemma from_to_bytes_be: "n < 256 ^ k \<Longrightarrow> from_bytes_be (to_bytes_be k n) = n"
  by (simp add: from_bytes_be_def foldl_to_bytes_be)

lemma small_length_byte:
  assumes "n < 128"
  shows "(of_nat n :: byte) AND 0x80 = 0" and "unat ((of_nat n :: byte) AND 0x7F) = n"
proof -
  have lt: "(of_nat n :: byte) < 2 ^ 7"
    using assms by (simp add: word_less_nat_alt unat_of_nat)
  have "(of_nat n :: byte) AND mask 7 = of_nat n"
    using lt by (simp add: less_mask_eq)
  then have m: "(of_nat n :: byte) AND 0x7F = of_nat n"
    by (simp add: mask_eq_exp_minus_1)
  have "(of_nat n :: byte) AND 0x80 = ((of_nat n :: byte) AND 0x7F) AND 0x80"
    by (simp only: m)
  also have "\<dots> = (of_nat n :: byte) AND (0x7F AND 0x80)"
    by (simp only: and.assoc)
  also have "\<dots> = 0"
    by simp
  finally show "(of_nat n :: byte) AND 0x80 = 0" .
  show "unat ((of_nat n :: byte) AND 0x7F) = n"
    using assms by (simp add: m unat_of_nat)
qed

text \<open>
  Where every character of the message is ASCII, \<^verbatim>\<open>len(data)\<close> is the number of payload
  bytes, and the frame written by \<^verbatim>\<open>send_frame\<close> decodes to the message again with
  nothing left unread, in each of the three length forms.
\<close>

theorem ascii_frame_roundtrip:
  assumes ascii: "list_all (\<lambda>c. c < 128) m" and len: "length m < 2 ^ 64"
  shows "snd (send_frame m) = None \<and> receive_frame (fst (send_frame m)) = (Inr (Some m), [])"
proof -
  let ?p = "map of_nat m :: byte list"
  have enc: "utf8_encode m = Some ?p"
    using ascii by (rule utf8_encode_ascii)
  have dec: "utf8_decode ?p = Some m"
    using ascii by (rule utf8_decode_ascii)
  have op: "drop_bit 7 ((0x81 :: byte) AND 0x80) = 1" "(0x81 :: byte) AND 0x0F = 1"
    by simp_all
  consider "length m < 126" | "126 \<le> length m" "length m < 65536" | "65536 \<le> length m"
    by linarith
  then show ?thesis
  proof cases
    case 1
    then have s: "send_frame m = ([0x81, of_nat (length m)] @ ?p, None)"
      by (simp add: send_frame_def WS_OPCODE_TEXT_def enc)
    have n: "length m < 128"
      using 1 by simp
    have z: "drop_bit 7 ((of_nat (length m) :: byte) AND 0x80) = 0"
      using small_length_byte(1) [OF n] mask_bit_zero by blast
    have l: "unat ((of_nat (length m) :: byte) AND 0x7F) = length m"
      by (rule small_length_byte(2) [OF n])
    show ?thesis
      using 1 z l dec
      by (simp add: s receive_frame_def Let_def WS_OPCODE_TEXT_def del: drop_bit_and)
  next
    case 2
    then have fit: "length m < 256 ^ 2"
      by simp
    have s: "send_frame m = ([0x81, 126] @ to_bytes_be 2 (length m) @ ?p, None)"
      using 2 fit by (simp add: send_frame_def WS_OPCODE_TEXT_def enc py_to_bytes_def)
    have t: "take 2 (to_bytes_be 2 (length m) @ ?p) = to_bytes_be 2 (length m)"
      "drop 2 (to_bytes_be 2 (length m) @ ?p) = ?p"
      by (simp_all add: to_bytes_be_length)
    show ?thesis
      using dec from_to_bytes_be [OF fit]
      by (simp add: s receive_frame_def Let_def WS_OPCODE_TEXT_def to_bytes_be_length
            del: to_bytes_be.simps)
  next
    case 3
    have fit: "length m < 256 ^ 8"
      using len by simp
    have s: "send_frame m = ([0x81, 127] @ to_bytes_be 8 (length m) @ ?p, None)"
      using 3 fit by (simp add: send_frame_def WS_OPCODE_TEXT_def enc py_to_bytes_def)
    have t: "take 8 (to_bytes_be 8 (length m) @ ?p) = to_bytes_be 8 (length m)"
      "drop 8 (to_bytes_be 8 (length m) @ ?p) = ?p"
      by (simp_all add: to_bytes_be_length)
    show ?thesis
      using dec from_to_bytes_be [OF fit]
      by (simp add: s receive_frame_def Let_def WS_OPCODE_TEXT_def to_bytes_be_length
            del: to_bytes_be.simps)
  qed
qed

theorem ascii_frame_roundtrip_witness:
  "list_all (\<lambda>c. c < 128) [104, 105 :: nat] \<and> length [104, 105 :: nat] < 2 ^ 64
   \<and> snd (send_frame [104, 105]) = None
   \<and> receive_frame (fst (send_frame [104, 105])) = (Inr (Some [104, 105]), [])"
proof -
  have a: "list_all (\<lambda>c. c < 128) [104, 105 :: nat]"
    by simp
  have l: "length [104, 105 :: nat] < 2 ^ 64"
    by simp
  show ?thesis
    using a l ascii_frame_roundtrip [OF a l] by simp
qed

text \<open>
  Claim C3, evaluated on the code. The message is the one character U+00E9, whose UTF-8
  encoding has two bytes. \<^verbatim>\<open>send_frame\<close> writes the length 1, the number of characters,
  in front of the two payload bytes. \<^verbatim>\<open>receive_frame\<close> reads one payload byte, fails to
  decode it, and leaves the second payload byte in the stream.
\<close>

theorem C3_non_ascii_frame_not_decoded:
  "send_frame [0xE9] = ([0x81, 0x01, 0xC3, 0xA9], None)
   \<and> receive_frame [0x81, 0x01, 0xC3, 0xA9] = (Inl UnicodeError, [0xA9])"
  by (simp add: send_frame_def receive_frame_def WS_OPCODE_TEXT_def utf8_encode_char_def Let_def)

lemma unmask_in_frame: "unmask (take 4 (drop k s)) (take n (drop (k + 4) s)) \<noteq> Inl err"
  by (auto simp: unmask_def min_def)

lemma receive_frame_non_text:
  assumes "2 \<le> length s" and "(s ! 0) AND 0x0F \<noteq> WS_OPCODE_TEXT"
  shows "fst (receive_frame s) = Inr None"
proof -
  have h: "take 2 s \<noteq> []" "\<not> length (take 2 s) < 2" "take 2 s ! 0 = s ! 0" "take 2 s ! 1 = s ! 1"
    using assms(1) by auto
  show ?thesis
  proof (cases "(s ! 1) AND 0x80 = 0")
    case True
    then have "drop_bit 7 ((s ! 1) AND 0x80) = 0"
      using mask_bit_zero [of "s ! 1"] by blast
    then show ?thesis
      using h assms(2) by (simp add: receive_frame_def Let_def del: drop_bit_and)
  next
    case False
    then have "drop_bit 7 ((s ! 1) AND 0x80) \<noteq> 0"
      using mask_bit_zero [of "s ! 1"] by blast
    then show ?thesis
      using h assms(2) unmask_in_frame [of 2 s] unmask_in_frame [of 4 s]
        unmask_in_frame [of 10 s]
      by (auto simp: receive_frame_def Let_def simp del: drop_bit_and split: sum.splits)
  qed
qed

text \<open>
  Every frame whose opcode is not the text opcode ends the session: \<^verbatim>\<open>receive_frame\<close>
  returns \<^verbatim>\<open>None\<close>, the loop of \<^verbatim>\<open>handle_client\<close> breaks without handing a message to
  \<^verbatim>\<open>process_message\<close>, the writer is closed, and what follows the frame is never read.
\<close>

lemma non_text_frame_ends_session:
  assumes "2 \<le> length s" and "(s ! 0) AND 0x0F \<noteq> WS_OPCODE_TEXT"
  shows "handle_client_loop s = ([], Loop_break, snd (receive_frame s))"
    and "handle_client None s =
           \<lparr> led_modes = [''connected'', ''connecting''], handed = [],
             connected_after = False, writer_closed = True,
             unread = snd (receive_frame s) \<rparr>"
proof -
  obtain rest where "receive_frame s = (Inr None, rest)"
    using receive_frame_non_text [OF assms] by (cases "receive_frame s") simp
  then show l: "handle_client_loop s = ([], Loop_break, snd (receive_frame s))"
    by (subst handle_client_loop.simps) simp
  show "handle_client None s =
           \<lparr> led_modes = [''connected'', ''connecting''], handed = [],
             connected_after = False, writer_closed = True,
             unread = snd (receive_frame s) \<rparr>"
    by (simp add: handle_client_def l)
qed

text \<open>
  Claim C4, evaluated on the code. The connection carries a ping frame (opcode 9, no
  payload) and then the text frame \<open>hi\<close>. \<^verbatim>\<open>receive_frame\<close> returns \<^verbatim>\<open>None\<close> for the
  ping, the value its docstring keeps for a connection with no data. The loop of
  \<^verbatim>\<open>handle_client\<close> breaks on it: nothing is handed to \<^verbatim>\<open>process_message\<close>, the writer is
  closed, and the text frame is never read. The claim has the loop go on to the text frame,
  which the same loop does hand to \<^verbatim>\<open>process_message\<close> where no ping precedes it.
\<close>

theorem C4_ping_ends_session:
  "receive_frame [0x89, 0x00, 0x81, 0x02, 0x68, 0x69] = (Inr None, [0x81, 0x02, 0x68, 0x69])
   \<and> handle_client_loop [0x89, 0x00, 0x81, 0x02, 0x68, 0x69]
       = ([], Loop_break, [0x81, 0x02, 0x68, 0x69])
   \<and> handle_client None [0x89, 0x00, 0x81, 0x02, 0x68, 0x69]
       = \<lparr> led_modes = [''connected'', ''connecting''], handed = [],
           connected_after = False, writer_closed = True,
           unread = [0x81, 0x02, 0x68, 0x69] \<rparr>
   \<and> handle_client None [0x81, 0x02, 0x68, 0x69]
       = \<lparr> led_modes = [''connected'', ''connecting''], handed = [[0x68, 0x69]],
           connected_after = False, writer_closed = True, unread = [] \<rparr>"
  by (simp add: handle_client_def handle_client_loop.simps receive_frame_def WS_OPCODE_TEXT_def
        Let_def)

lemma client_send_frame_eq: "client_send_frame data = send_frame data"
  by (simp add: client_send_frame_def send_frame_def WS_OPCODE_TEXT_def)

text \<open>
  Claim C9, as amended. A frame that the client's encoder has written starts with the
  byte \<open>0x81\<close>; the mask bit of its second byte is clear; and right after the header,
  with no masking key in between, follow the bytes of \<^verbatim>\<open>data.encode()\<close> unchanged, so no
  payload byte is XORed. The header has 2 bytes for a text of fewer than 126 characters,
  4 bytes for one of fewer than 65536, and 10 bytes otherwise.
\<close>

theorem C9_client_frame_unmasked:
  assumes "client_send_frame data = (frame, None)"
  shows "frame ! 0 = 0x81
       \<and> (frame ! 1) AND 0x80 = 0
       \<and> (if length data < 126 then 2 else if length data < 65536 then 4 else 10) \<le> length frame
       \<and> utf8_encode data =
           Some (drop (if length data < 126 then 2 else if length data < 65536 then 4 else 10) frame)"
proof -
  consider "length data < 126" | "126 \<le> length data" "length data < 65536" | "65536 \<le> length data"
    by linarith
  then show ?thesis
  proof cases
    case 1
    then have "length data < 128"
      by simp
    then have "(of_nat (length data) :: byte) AND 0x80 = 0"
      by (rule small_length_byte(1))
    then show ?thesis
      using assms 1
      by (auto simp: client_send_frame_def split: option.splits)
  next
    case 2
    then show ?thesis
      using assms
      by (auto simp: client_send_frame_def py_to_bytes_def to_bytes_be_length
            simp del: to_bytes_be.simps split: option.splits if_splits)
  next
    case 3
    then show ?thesis
      using assms
      by (auto simp: client_send_frame_def py_to_bytes_def to_bytes_be_length
            simp del: to_bytes_be.simps split: option.splits if_splits)
  qed
qed

theorem C9_client_frame_unmasked_witness:
  "client_send_frame [0x41] = ([0x81, 0x01, 0x41], None)
   \<and> [0x81, 0x01, 0x41 :: byte] ! 0 = 0x81
   \<and> ([0x81, 0x01, 0x41 :: byte] ! 1) AND 0x80 = 0
   \<and> utf8_encode [0x41] = Some (drop 2 [0x81, 0x01, 0x41])"
proof -
  have a: "client_send_frame [0x41] = ([0x81, 0x01, 0x41], None)"
    by (simp add: client_send_frame_def utf8_encode_char_def)
  show ?thesis
    using a C9_client_frame_unmasked [OF a] by simp
qed

text \<open>
  The claim as stated fails: the frame the client sends for the text \<open>A\<close> has three
  bytes. Its second byte is the length 1 with the mask bit clear, no masking key follows,
  and the payload byte is \<open>0x41\<close> itself.
\<close>

theorem C9_client_frame_counterexample:
  "fst (client_send_frame [0x41]) = [0x81, 0x01, 0x41]
   \<and> (fst (client_send_frame [0x41]) ! 1) AND 0x80 = 0
   \<and> length (fst (client_send_frame [0x41])) = 3"
  by (simp add: client_send_frame_def utf8_encode_char_def)

section \<open>Properties of the command handlers\<close>

text \<open>
  \<^verbatim>\<open>int\<close> of a string: white space around the number, a sign, and single underscores
  between digits are accepted.
\<close>

lemma parse_int_examples:
  "parse_int ''0_1'' = Inr 1"
  "parse_int '' -1_000 '' = Inr (- 1000)"
  "parse_int ''+7'' = Inr 7"
  "parse_int ''1__0'' = Inl ValueError"
  "parse_int ''_1'' = Inl ValueError"
  "parse_int ''1_'' = Inl ValueError"
  "parse_int ''-'' = Inl ValueError"
  "parse_int ''2.0'' = Inl ValueError"
  by (simp_all add: parse_int_def strip_by_def is_space_def is_digit_def digits_value_def)

text \<open>No handler writes \<^verbatim>\<open>self.tasks\<close>.\<close>

lemma handle_call_tasks: "tasks (fst (handle_call srv d)) = tasks srv"
  by (simp add: handle_call_def split: sum.splits prod.splits outcome.splits)

lemma handle_task_tasks: "tasks (fst (handle_task srv d)) = tasks srv"
  by (simp add: handle_task_def split: sum.splits prod.splits outcome.splits)

lemma handle_status_tasks: "tasks (fst (handle_status srv d)) = tasks srv"
  by (simp add: handle_status_def split: sum.splits option.splits)

lemma handle_reset_tasks: "tasks (fst (handle_reset srv)) = tasks srv"
  by (simp add: handle_reset_def split: prod.splits outcome.splits)

lemma dispatch_tasks: "tasks (fst (dispatch srv data)) = tasks srv"
  by (simp add: dispatch_def handle_call_tasks handle_task_tasks handle_status_tasks
        handle_reset_tasks split: sum.splits bool.splits)

lemma process_message_tasks: "tasks (fst (process_message srv loaded)) = tasks srv"
proof (cases loaded)
  case (Inl err)
  then show ?thesis by (simp add: process_message_def)
next
  case (Inr data)
  obtain srv' frames out where d: "dispatch srv data = (srv', frames, out)"
    by (cases "dispatch srv data")
  then have "tasks srv' = tasks srv"
    using dispatch_tasks [of srv data] by simp
  then show ?thesis
    using Inr d by (cases out) (simp_all add: process_message_def)
qed

lemma session_run_tasks: "tasks (fst (session_run srv msgs)) = tasks srv"
proof (induction msgs arbitrary: srv)
  case Nil
  then show ?case by simp
next
  case (Cons m ms)
  obtain srv' frames out where p: "process_message srv m = (srv', frames, out)"
    by (cases "process_message srv m")
  then have t: "tasks srv' = tasks srv"
    using process_message_tasks [of srv m] by simp
  show ?case
  proof (cases out)
    case (Returned u)
    then show ?thesis
      using p t Cons.IH [of srv'] by (auto split: prod.splits)
  next
    case (Raised err)
    then show ?thesis using p t by simp
  next
    case Blocked
    then show ?thesis using p t by simp
  qed
qed

lemma status_on_empty_table:
  assumes "tasks srv = []" and "hashable t"
  shows "process_message srv (Inr (JObj [(''status'', JObj [(''task_id'', t)])]))
       = (srv, [not_found_response t], Returned ())"
  using assms
  by (simp add: process_message_def dispatch_def py_in_def py_getitem_def handle_status_def)

text \<open>
  Claim C10. After any sequence of messages processed from the initial state of the
  server, \<^verbatim>\<open>self.tasks\<close> is still empty, and a status command for a task id \<open>t\<close> is
  answered with the one frame \<^verbatim>\<open>{"response": {"task_id": t, "status": "not_found"}}\<close>
  and leaves the state as it is. \<open>t\<close> ranges over the values that can be hashed, the
  integers among them; a list or an object as task id is a TypeError of the membership
  test.
\<close>

theorem C10_status_always_not_found:
  assumes "hashable t"
  shows "tasks (fst (session_run server_init msgs)) = []
       \<and> process_message (fst (session_run server_init msgs))
            (Inr (JObj [(''status'', JObj [(''task_id'', t)])]))
          = (fst (session_run server_init msgs), [not_found_response t], Returned ())"
proof -
  have e: "tasks (fst (session_run server_init msgs)) = []"
    by (simp add: session_run_tasks server_init_def)
  show ?thesis
    using e status_on_empty_table [OF e assms] by simp
qed

theorem C10_status_always_not_found_witness:
  "hashable (JNum 42)
   \<and> tasks (fst (session_run server_init
        [Inr (JObj [(''task'', JObj [(''id'', JNum 42), (''motor'', JNum 1), (''floor'', JNum 2),
                                     (''action'', JStr ''move'')])])])) = []
   \<and> fst (snd (process_message (fst (session_run server_init
        [Inr (JObj [(''task'', JObj [(''id'', JNum 42), (''motor'', JNum 1), (''floor'', JNum 2),
                                     (''action'', JStr ''move'')])])]))
        (Inr (JObj [(''status'', JObj [(''task_id'', JNum 42)])]))))
      = [JObj [(''response'', JObj [(''task_id'', JNum 42), (''status'', JStr ''not_found'')])]]"
proof -
  have h: "hashable (JNum 42)"
    by (simp add: hashable_def)
  show ?thesis
    using h
      C10_status_always_not_found [OF h,
        of "[Inr (JObj [(''task'', JObj [(''id'', JNum 42), (''motor'', JNum 1),
                                         (''floor'', JNum 2), (''action'', JStr ''move'')])])]"]
    by (simp add: not_found_response_def)
qed

text \<open>
  A message that is not JSON, and an object with none of the four command keys, are each
  answered with one error frame.
\<close>

lemma unrecognized_shape_answered:
  "process_message srv (Inl err) = (srv, [error_response (exc_text err)], Returned ())"
  "map_of kvs ''call'' = None \<Longrightarrow> map_of kvs ''task'' = None \<Longrightarrow>
   map_of kvs ''status'' = None \<Longrightarrow> map_of kvs ''reset'' = None \<Longrightarrow>
   process_message srv (Inr (JObj kvs)) = (srv, [error_response ''Invalid request''], Returned ())"
  by (simp_all add: process_message_def dispatch_def py_in_def)

text \<open>
  Claim C6, evaluated on the code, from the initial state of the server. A task for
  elevator 0 and floor 7, and a call for floor 7, are each answered with a
  \<^verbatim>\<open>processing\<close> frame and then a \<^verbatim>\<open>completed\<close> frame, and no error frame; the task
  leaves elevator 0 at floor 1 with status \<^verbatim>\<open>'error'\<close>. A task for the unknown elevator 5
  is answered with a \<^verbatim>\<open>processing\<close> frame and then an error frame.
\<close>

theorem C6_out_of_range_floor_completed:
  "fst (snd (process_message server_init
      (Inr (JObj [(''task'', JObj [(''id'', JNum 1), (''motor'', JNum 0), (''floor'', JNum 7),
                                   (''action'', JStr ''move'')])]))))
     = [task_response 0 7 ''processing'', task_response 0 7 ''completed'']
   \<and> map_of (elevators (elevator (fst (process_message server_init
      (Inr (JObj [(''task'', JObj [(''id'', JNum 1), (''motor'', JNum 0), (''floor'', JNum 7),
                                   (''action'', JStr ''move'')])])))))) 0
     = Some \<lparr> floor_at = 1, target = Some 7, status = Error, queue = [], active = False \<rparr>
   \<and> fst (snd (process_message server_init
      (Inr (JObj [(''call'', JObj [(''floor'', JNum 7), (''elevator'', JNum 0)])]))))
     = [call_response 7 0 ''processing'', call_response 7 0 ''completed'']
   \<and> fst (snd (process_message server_init
      (Inr (JObj [(''task'', JObj [(''id'', JNum 1), (''motor'', JNum 5), (''floor'', JNum 2),
                                   (''action'', JStr ''move'')])]))))
     = [task_response 5 2 ''processing'', error_response ''ValueError'']"
  by code_simp

section \<open>Properties of the handshake\<close>

lemma utf8_encode_append:
  "utf8_encode a = Some x \<Longrightarrow> utf8_encode b = Some y \<Longrightarrow> utf8_encode (a @ b) = Some (x @ y)"
  by (induction a arbitrary: x) (auto split: option.splits)

lemma utf8_encode_valid: "list_all valid_cp t \<Longrightarrow> utf8_encode t \<noteq> None"
  by (induction t) (auto simp: valid_cp_def utf8_encode_char_def split: option.splits)

lemma unat_and_le: "unat (b AND k) \<le> unat (k :: byte)"
  by (rule word_and_le1 [THEN word_le_nat_alt [THEN iffD1]])

lemma cont_bits_le: "cont_bits b \<le> 63"
  using unat_and_le [of b "0x3F"] by (simp add: cont_bits_def)

lemma utf8_decode_step:
  assumes "utf8_decode (b # bs) = Some t"
  shows "\<exists>c r t'. t = c # t' \<and> valid_cp c \<and> utf8_decode r = Some t' \<and> length r \<le> length bs"
proof -
  have m: "unat (b AND 0x1F) \<le> 31" "unat (b AND 0x0F) \<le> 15" "unat (b AND 0x07) \<le> 7"
    using unat_and_le [of b "0x1F"] unat_and_le [of b "0x0F"] unat_and_le [of b "0x07"]
    by simp_all
  consider (one) "b < 0x80"
    | (two) "\<not> b < 0x80" "b AND 0xE0 = 0xC0"
    | (three) "\<not> b < 0x80" "b AND 0xE0 \<noteq> 0xC0" "b AND 0xF0 = 0xE0"
    | (four) "\<not> b < 0x80" "b AND 0xE0 \<noteq> 0xC0" "b AND 0xF0 \<noteq> 0xE0"
    by blast
  then show ?thesis
  proof cases
    case one
    then have "unat b < 128"
      by (simp add: word_less_nat_alt)
    then show ?thesis
      using assms one by (auto simp: valid_cp_def)
  next
    case two
    then obtain b1 r where bs: "bs = b1 # r"
      using assms by (cases bs) auto
    define c where "c = unat (b AND 0x1F) * 64 + cont_bits b1"
    obtain z where z: "utf8_decode r = Some z" "t = c # z"
      using assms two by (auto simp: bs c_def Let_def split: if_splits)
    have "valid_cp c"
      using m(1) cont_bits_le [of b1] by (simp add: c_def valid_cp_def)
    then show ?thesis
      using z by (intro exI [of _ c] exI [of _ r] exI [of _ z]) (simp add: bs)
  next
    case three
    then obtain b1 b2 r where bs: "bs = b1 # b2 # r"
      using assms by (auto split: list.splits)
    define c where "c = unat (b AND 0x0F) * 4096 + cont_bits b1 * 64 + cont_bits b2"
    obtain z where z: "utf8_decode r = Some z" "t = c # z"
        "\<not> (0xD800 \<le> c \<and> c < 0xE000)"
      using assms three by (auto simp: bs c_def Let_def split: if_splits)
    have "valid_cp c"
      using m(2) cont_bits_le [of b1] cont_bits_le [of b2] z(3)
      unfolding c_def valid_cp_def by linarith
    then show ?thesis
      using z by (intro exI [of _ c] exI [of _ r] exI [of _ z]) (simp add: bs)
  next
    case four
    then obtain b1 b2 b3 r where bs: "bs = b1 # b2 # b3 # r"
      using assms by (auto split: list.splits if_splits)
    define c where
      "c = unat (b AND 0x07) * 262144 + cont_bits b1 * 4096 + cont_bits b2 * 64 + cont_bits b3"
    obtain z where z: "utf8_decode r = Some z" "t = c # z" "0x10000 \<le> c" "c < 0x110000"
      using assms four by (auto simp: bs c_def Let_def split: if_splits)
    have "valid_cp c"
      using z(3,4) by (simp add: valid_cp_def)
    then show ?thesis
      using z by (intro exI [of _ c] exI [of _ r] exI [of _ z]) (simp add: bs)
  qed
qed

lemma utf8_decode_valid: "utf8_decode bs = Some t \<Longrightarrow> list_all valid_cp t"
proof (induction "length bs" arbitrary: bs t rule: less_induct)
  case less
  show ?case
  proof (cases bs)
    case Nil
    then show ?thesis using less.prems by simp
  next
    case (Cons b bs')
    then obtain c r t' where s: "t = c # t'" "valid_cp c" "utf8_decode r = Some t'"
        "length r \<le> length bs'"
      using utf8_decode_step [of b bs' t] less.prems by auto
    have "list_all valid_cp t'"
      using less.hyps [of r t'] s(3,4) Cons by simp
    then show ?thesis
      using s by simp
  qed
qed

lemma low_bits: "unat ((b :: byte) AND mask k) = unat b mod 2 ^ k"
proof -
  have "b AND mask k = take_bit k b"
    by (simp add: take_bit_eq_mask)
  then have "unat (b AND mask k) = take_bit k (unat b)"
    by (simp add: unsigned_take_bit_eq)
  then show ?thesis
    by (simp add: take_bit_eq_mod)
qed

lemma high_bits:
  assumes "k \<le> 8"
  shows "unat ((b :: byte) AND NOT (mask k)) = 2 ^ k * (unat b div 2 ^ k)"
proof -
  have "b AND NOT (mask k) = push_bit k (drop_bit k b)"
    by (rule bit_eqI) (auto simp: bit_simps)
  then have "unat (b AND NOT (mask k)) = take_bit 8 (push_bit k (drop_bit k (unat b)))"
    by (simp add: unsigned_push_bit_eq unat_drop_bit_eq)
  also have "\<dots> = (2 ^ k * (unat b div 2 ^ k)) mod 256"
    by (simp add: take_bit_eq_mod push_bit_eq_mult drop_bit_eq_div mult.commute)
  also have "\<dots> = 2 ^ k * (unat b div 2 ^ k)"
  proof -
    have "2 ^ k * (unat b div 2 ^ k) \<le> unat b"
      by simp
    moreover have "unat b < 256"
      using unsigned_less [of b] by simp
    ultimately have "2 ^ k * (unat b div 2 ^ k) < 256"
      by (rule le_less_trans)
    then show ?thesis
      by (rule mod_less)
  qed
  finally show ?thesis .
qed

lemma byte_masks:
  "(0x3F :: byte) = mask 6" "(0x1F :: byte) = mask 5" "(0x0F :: byte) = mask 4" "(0x07 :: byte) = mask 3"
  "(0xC0 :: byte) = NOT (mask 6)" "(0xE0 :: byte) = NOT (mask 5)" "(0xF0 :: byte) = NOT (mask 4)"
  "(0xF8 :: byte) = NOT (mask 3)"
  by (simp_all add: mask_eq_exp_minus_1)

lemma byte_of_nat: "n < 256 \<Longrightarrow> unat (of_nat n :: byte) = n"
  by (simp add: unat_of_nat)

lemma byte_eq_unat: "(a :: byte) = b \<longleftrightarrow> unat a = unat b"
  by (rule word_unat_eq_iff)

lemma byte_and:
  assumes "n < 256"
  shows "unat ((of_nat n :: byte) AND mask k) = n mod 2 ^ k"
    and "k \<le> 8 \<Longrightarrow> unat ((of_nat n :: byte) AND NOT (mask k)) = 2 ^ k * (n div 2 ^ k)"
  using assms by (simp_all add: low_bits high_bits byte_of_nat)

lemma mod_above:
  "x < 64 \<Longrightarrow> (128 + x) mod 64 = (x :: nat)"
  "x < 32 \<Longrightarrow> (192 + x) mod 32 = (x :: nat)"
  "x < 16 \<Longrightarrow> (224 + x) mod 16 = (x :: nat)"
  "x < 8 \<Longrightarrow> (240 + x) mod 8 = (x :: nat)"
  using mod_mult_self2 [of x 64 2] mod_mult_self2 [of x 32 6] mod_mult_self2 [of x 16 14]
    mod_mult_self2 [of x 8 30]
  by (simp_all add: add.commute)

lemma cont_byte:
  assumes "x < 64"
  shows "is_cont (of_nat (0x80 + x))" and "cont_bits (of_nat (0x80 + x)) = x"
    and "\<not> (of_nat (0x80 + x) :: byte) < 0x80"
proof -
  have n: "0x80 + x < 256"
    using assms by simp
  have "unat ((of_nat (0x80 + x) :: byte) AND 0xC0) = 128"
    using assms by (simp only: byte_masks byte_and [OF n]) simp
  then show "is_cont (of_nat (0x80 + x))"
    by (simp add: is_cont_def byte_eq_unat)
  show "cont_bits (of_nat (0x80 + x)) = x"
    using assms by (simp only: cont_bits_def byte_masks byte_and [OF n]) (simp add: mod_above)
  have u: "unat (of_nat (0x80 + x) :: byte) = 0x80 + x"
    by (rule byte_of_nat [OF n])
  show "\<not> (of_nat (0x80 + x) :: byte) < 0x80"
    unfolding word_less_nat_alt u by simp
qed

lemma lead2:
  assumes "h < 32"
  shows "\<not> (of_nat (0xC0 + h) :: byte) < 0x80"
    and "(of_nat (0xC0 + h) :: byte) AND 0xE0 = 0xC0"
    and "unat ((of_nat (0xC0 + h) :: byte) AND 0x1F) = h"
proof -
  have n: "0xC0 + h < 256"
    using assms by simp
  have u: "unat (of_nat (0xC0 + h) :: byte) = 0xC0 + h"
    by (rule byte_of_nat [OF n])
  show "\<not> (of_nat (0xC0 + h) :: byte) < 0x80"
    unfolding word_less_nat_alt u by simp
  have "unat ((of_nat (0xC0 + h) :: byte) AND 0xE0) = 192"
    using assms by (simp only: byte_masks byte_and [OF n]) simp
  then show "(of_nat (0xC0 + h) :: byte) AND 0xE0 = 0xC0"
    by (simp add: byte_eq_unat)
  show "unat ((of_nat (0xC0 + h) :: byte) AND 0x1F) = h"
    using assms by (simp only: byte_masks byte_and [OF n]) (simp add: mod_above)
qed

lemma lead3:
  assumes "h < 16"
  shows "\<not> (of_nat (0xE0 + h) :: byte) < 0x80"
    and "(of_nat (0xE0 + h) :: byte) AND 0xE0 \<noteq> 0xC0"
    and "(of_nat (0xE0 + h) :: byte) AND 0xF0 = 0xE0"
    and "unat ((of_nat (0xE0 + h) :: byte) AND 0x0F) = h"
proof -
  have n: "0xE0 + h < 256"
    using assms by simp
  have u: "unat (of_nat (0xE0 + h) :: byte) = 0xE0 + h"
    by (rule byte_of_nat [OF n])
  show "\<not> (of_nat (0xE0 + h) :: byte) < 0x80"
    unfolding word_less_nat_alt u by simp
  have "unat ((of_nat (0xE0 + h) :: byte) AND 0xE0) = 224"
    using assms by (simp only: byte_masks byte_and [OF n]) simp
  then show "(of_nat (0xE0 + h) :: byte) AND 0xE0 \<noteq> 0xC0"
    by (simp add: byte_eq_unat)
  have "unat ((of_nat (0xE0 + h) :: byte) AND 0xF0) = 224"
    using assms by (simp only: byte_masks byte_and [OF n]) simp
  then show "(of_nat (0xE0 + h) :: byte) AND 0xF0 = 0xE0"
    by (simp add: byte_eq_unat)
  show "unat ((of_nat (0xE0 + h) :: byte) AND 0x0F) = h"
    using assms by (simp only: byte_masks byte_and [OF n]) (simp add: mod_above)
qed

lemma lead4:
  assumes "h < 8"
  shows "\<not> (of_nat (0xF0 + h) :: byte) < 0x80"
    and "(of_nat (0xF0 + h) :: byte) AND 0xE0 \<noteq> 0xC0"
    and "(of_nat (0xF0 + h) :: byte) AND 0xF0 \<noteq> 0xE0"
    and "(of_nat (0xF0 + h) :: byte) AND 0xF8 = 0xF0"
    and "unat ((of_nat (0xF0 + h) :: byte) AND 0x07) = h"
proof -
  have n: "0xF0 + h < 256"
    using assms by simp
  have u: "unat (of_nat (0xF0 + h) :: byte) = 0xF0 + h"
    by (rule byte_of_nat [OF n])
  show "\<not> (of_nat (0xF0 + h) :: byte) < 0x80"
    unfolding word_less_nat_alt u by simp
  have "unat ((of_nat (0xF0 + h) :: byte) AND 0xE0) = 224"
    using assms by (simp only: byte_masks byte_and [OF n]) simp
  then show "(of_nat (0xF0 + h) :: byte) AND 0xE0 \<noteq> 0xC0"
    by (simp add: byte_eq_unat)
  have "unat ((of_nat (0xF0 + h) :: byte) AND 0xF0) = 240"
    using assms by (simp only: byte_masks byte_and [OF n]) simp
  then show "(of_nat (0xF0 + h) :: byte) AND 0xF0 \<noteq> 0xE0"
    by (simp add: byte_eq_unat)
  have "unat ((of_nat (0xF0 + h) :: byte) AND 0xF8) = 240"
    using assms by (simp only: byte_masks byte_and [OF n]) simp
  then show "(of_nat (0xF0 + h) :: byte) AND 0xF8 = 0xF0"
    by (simp add: byte_eq_unat)
  show "unat ((of_nat (0xF0 + h) :: byte) AND 0x07) = h"
    using assms by (simp only: byte_masks byte_and [OF n]) (simp add: mod_above)
qed

lemma shift6: "(q :: nat) div 64 * 4096 + q mod 64 * 64 = q * 64"
proof -
  define d m where "d = q div 64" and "m = q mod 64"
  have "q = d * 64 + m"
    by (simp add: d_def m_def)
  then have "d * 4096 + m * 64 = q * 64"
    by simp
  then show ?thesis
    by (simp only: d_def m_def)
qed

lemma shift12: "(q :: nat) div 64 * 262144 + q mod 64 * 4096 = q * 4096"
proof -
  define d m where "d = q div 64" and "m = q mod 64"
  have "q = d * 64 + m"
    by (simp add: d_def m_def)
  then have "d * 262144 + m * 4096 = q * 4096"
    by simp
  then show ?thesis
    by (simp only: d_def m_def)
qed

lemma split6:
  "(c :: nat) div 64 * 64 + c mod 64 = c"
  "(c :: nat) div 4096 * 4096 + c div 64 mod 64 * 64 + c mod 64 = c"
  "(c :: nat) div 262144 * 262144 + c div 4096 mod 64 * 4096 + c div 64 mod 64 * 64 + c mod 64 = c"
proof -
  show "c div 64 * 64 + c mod 64 = c"
    by simp
  have b: "c div 4096 = c div 64 div 64"
    by (simp add: div_mult2_eq [symmetric])
  have d: "c div 262144 = c div 4096 div 64"
    by (simp add: div_mult2_eq [symmetric])
  have "c div 4096 * 4096 + c div 64 mod 64 * 64 = c div 64 * 64"
    by (simp only: b shift6)
  then show e: "c div 4096 * 4096 + c div 64 mod 64 * 64 + c mod 64 = c"
    by simp
  have "c div 262144 * 262144 + c div 4096 mod 64 * 4096 = c div 4096 * 4096"
    by (simp only: d shift12)
  then show "c div 262144 * 262144 + c div 4096 mod 64 * 4096 + c div 64 mod 64 * 64 + c mod 64 = c"
    using e by simp
qed

lemma utf8_char_codec:
  assumes "utf8_encode_char c = Some bs"
  shows "utf8_decode (bs @ rest) = map_option ((#) c) (utf8_decode rest)"
proof -
  consider (one) "c < 0x80"
    | (two) "0x80 \<le> c" "c < 0x800"
    | (three) "0x800 \<le> c" "c < 0x10000" "\<not> (0xD800 \<le> c \<and> c < 0xE000)"
    | (four) "0x10000 \<le> c" "c < 0x110000"
    using assms by (auto simp: utf8_encode_char_def split: if_splits)
  then show ?thesis
  proof cases
    case one
    then have "bs = [of_nat c]"
      using assms by (simp add: utf8_encode_char_def)
    moreover have "unat (of_nat c :: byte) = c" "(of_nat c :: byte) < 0x80"
      using one by (simp_all add: word_less_nat_alt unat_of_nat)
    ultimately show ?thesis
      by simp
  next
    case two
    then have bs: "bs = [of_nat (0xC0 + c div 64), of_nat (0x80 + c mod 64)]"
      using assms by (auto simp: utf8_encode_char_def split: if_splits)
    have h: "c div 64 < 32" and x: "c mod 64 < 64"
      using two by simp_all
    show ?thesis
      using two split6(1) [of c]
      by (simp add: bs lead2 [OF h] cont_byte [OF x] Let_def del: of_nat_add)
  next
    case three
    then have bs: "bs = [of_nat (0xE0 + c div 4096), of_nat (0x80 + c div 64 mod 64),
        of_nat (0x80 + c mod 64)]"
      using assms by (auto simp: utf8_encode_char_def split: if_splits)
    have h: "c div 4096 < 16" and y: "c div 64 mod 64 < 64" and x: "c mod 64 < 64"
      using three by simp_all
    show ?thesis
      using three split6(2) [of c]
      by (simp add: bs lead3 [OF h] cont_byte [OF x] cont_byte [OF y] Let_def del: of_nat_add)
  next
    case four
    then have bs: "bs = [of_nat (0xF0 + c div 262144), of_nat (0x80 + c div 4096 mod 64),
        of_nat (0x80 + c div 64 mod 64), of_nat (0x80 + c mod 64)]"
      using assms by (auto simp: utf8_encode_char_def split: if_splits)
    have h: "c div 262144 < 8" and z: "c div 4096 mod 64 < 64" and y: "c div 64 mod 64 < 64"
      and x: "c mod 64 < 64"
      using four by simp_all
    show ?thesis
      using four split6(3) [of c]
      by (simp add: bs lead4 [OF h] cont_byte [OF x] cont_byte [OF y] cont_byte [OF z] Let_def
            del: of_nat_add)
  qed
qed

lemma utf8_codec: "utf8_encode t = Some bs \<Longrightarrow> utf8_decode bs = Some t"
proof (induction t arbitrary: bs)
  case Nil
  then show ?case by simp
next
  case (Cons c t)
  then obtain x y where x: "utf8_encode_char c = Some x" and y: "utf8_encode t = Some y"
      and bs: "bs = x @ y"
    by (auto split: option.splits)
  show ?case
    using utf8_char_codec [OF x, of y] Cons.IH [OF y] by (simp add: bs)
qed

lemma set_strip_by: "set (strip_by P xs) \<subseteq> set xs"
proof -
  have "set (dropWhile P (rev (dropWhile P xs))) \<subseteq> set (rev (dropWhile P xs))"
    by (rule set_dropWhileD [THEN subsetI])
  also have "\<dots> \<subseteq> set xs"
    using set_dropWhileD [of _ P xs] by auto
  finally show ?thesis
    by (simp add: strip_by_def)
qed

lemma set_split_once:
  "split_once sep xs = Some (a, b) \<Longrightarrow> set a \<subseteq> set xs \<and> set b \<subseteq> set xs"
proof (induction xs arbitrary: a b)
  case Nil
  then show ?case by simp
next
  case (Cons x xs)
  show ?case
  proof (cases "take (length sep) (x # xs) = sep")
    case True
    then have "a = []" "b = drop (length sep) (x # xs)"
      using Cons.prems by simp_all
    then show ?thesis
      using set_drop_subset [of "length sep" "x # xs"] by simp
  next
    case False
    then obtain a' where "split_once sep xs = Some (a', b)" "a = x # a'"
      using Cons.prems by auto
    then show ?thesis
      using Cons.IH [of a' b] by auto
  qed
qed

lemma ascii_bytes_codec:
  assumes "list_all (\<lambda>b. b < 0x80) (bs :: byte list)"
  shows "utf8_decode bs = Some (map unat bs)" and "utf8_encode (map unat bs) = Some bs"
proof -
  have a: "list_all (\<lambda>c. c < 128) (map unat bs)"
    using assms by (induction bs) (simp_all add: word_less_nat_alt)
  have b: "map of_nat (map unat bs) = bs"
    by (induction bs) simp_all
  show "utf8_decode bs = Some (map unat bs)"
    using utf8_decode_ascii [OF a] by (simp only: b)
  show "utf8_encode (map unat bs) = Some bs"
    using utf8_encode_ascii [OF a] by (simp only: b)
qed

lemma b64_char_ascii: "b64_char n < 0x80" "\<not> is_space (unat (b64_char n))"
  by (auto simp: b64_char_def word_less_nat_alt unat_of_nat is_space_def)

lemma pad_not_space: "\<not> is_space 61" "is_space 10"
  by (simp_all add: is_space_def)

lemma b64_groups_ascii:
  "list_all (\<lambda>b. b < 0x80) (b64_groups bs)"
  "list_all (\<lambda>b. \<not> is_space (unat b)) (b64_groups bs)"
  by (induction bs rule: b64_groups.induct) (simp_all add: b64_char_ascii pad_not_space)

lemma strip_b2a_base64:
  "strip_by (\<lambda>b. is_space (unat b)) (b2a_base64 bs) = b64_groups bs"
proof -
  let ?P = "\<lambda>b :: byte. is_space (unat b)"
  have none: "\<forall>x \<in> set (b64_groups bs). \<not> ?P x"
    using b64_groups_ascii(2) [of bs] by (simp add: list_all_iff)
  have keep: "dropWhile ?P xs = xs" if "\<forall>x \<in> set xs. \<not> ?P x" for xs
    using that by (cases xs) simp_all
  show ?thesis
  proof (cases "b64_groups bs")
    case Nil
    then show ?thesis
      by (simp add: strip_by_def b2a_base64_def pad_not_space)
  next
    case (Cons g gs)
    then have "\<not> ?P g"
      using none by simp
    then have "dropWhile ?P (b64_groups bs @ [0x0A]) = b64_groups bs @ [0x0A]"
      using Cons by simp
    moreover have "dropWhile ?P (rev (b64_groups bs @ [0x0A])) = rev (b64_groups bs)"
      using keep [of "rev (b64_groups bs)"] none by (simp add: pad_not_space)
    ultimately show ?thesis
      by (simp add: strip_by_def b2a_base64_def)
  qed
qed

lemma literal_codec:
  assumes "list_all (\<lambda>c. (of_char c :: nat) < 128) s"
  shows "utf8_encode (str_of s) = Some (bytes_of s)"
proof -
  have a: "list_all (\<lambda>c. c < 128) (str_of s)"
    using assms by (induction s) (simp_all add: str_of_def)
  have "map of_nat (str_of s) = (bytes_of s :: byte list)"
    by (simp add: str_of_def bytes_of_def of_nat_of_char)
  then show ?thesis
    using utf8_encode_ascii [OF a] by simp
qed

lemma head_ascii: "list_all (\<lambda>c. (of_char c :: nat) < 128) response_head"
  "list_all (\<lambda>c. (of_char c :: nat) < 128) (crlf @ crlf)"
  "list_all (\<lambda>c. (of_char c :: nat) < 128) WS_MAGIC_STRING"
  by (simp_all add: response_head_def crlf_def WS_MAGIC_STRING_def)

lemma read_headers_valid:
  "read_headers lines hs = Inr hs' \<Longrightarrow>
   (\<And>k v. hs k = Some v \<Longrightarrow> list_all valid_cp v) \<Longrightarrow>
   hs' k = Some v \<Longrightarrow> list_all valid_cp v"
proof (induction lines arbitrary: hs)
  case Nil
  then show ?case by simp
next
  case (Cons line rest)
  show ?case
  proof (cases "line = bytes_of crlf \<or> line = []")
    case True
    then show ?thesis
      using Cons.prems by auto
  next
    case False
    then obtain t key val where d: "utf8_decode line = Some t"
        and sp: "split_once (str_of '': '') (strip_by is_space t) = Some (key, val)"
        and rest: "read_headers rest (hs(key \<mapsto> val)) = Inr hs'"
      using Cons.prems(1) by (auto split: option.splits)
    have "set val \<subseteq> set t"
      using set_split_once [OF sp] set_strip_by [of is_space t] by blast
    moreover have "list_all valid_cp t"
      using d by (rule utf8_decode_valid)
    ultimately have v: "list_all valid_cp val"
      by (auto simp: list_all_iff)
    show ?thesis
    proof (rule Cons.IH [OF rest _ Cons.prems(3)])
      fix k' v'
      assume "(hs(key \<mapsto> val)) k' = Some v'"
      then show "list_all valid_cp v'"
        using v Cons.prems(2) by (auto split: if_splits)
    qed
  qed
qed

lemma handshake_accept:
  assumes rh: "read_headers (tl lines) Map.empty = Inr headers"
    and key: "headers (str_of ''Sec-WebSocket-Key'') = Some key"
  shows "\<exists>key_bytes. utf8_encode (key @ str_of WS_MAGIC_STRING) = Some key_bytes
       \<and> handshake sha1 lines
          = Inr (bytes_of response_head @ b64_groups (sha1 key_bytes) @ bytes_of (crlf @ crlf))"
proof -
  have "list_all valid_cp key"
    using read_headers_valid [OF rh _ key] by simp
  then obtain kb where kb: "utf8_encode key = Some kb"
    using utf8_encode_valid by blast
  have full: "utf8_encode (key @ str_of WS_MAGIC_STRING) = Some (kb @ bytes_of WS_MAGIC_STRING)"
    using kb literal_codec [OF head_ascii(3)] by (rule utf8_encode_append)
  let ?acc = "b64_groups (sha1 (kb @ bytes_of WS_MAGIC_STRING))"
  have dec: "utf8_decode ?acc = Some (map unat ?acc)"
    and enc: "utf8_encode (map unat ?acc) = Some ?acc"
    using ascii_bytes_codec [OF b64_groups_ascii(1)] by blast+
  have resp: "utf8_encode (str_of response_head @ map unat ?acc @ str_of (crlf @ crlf))
      = Some (bytes_of response_head @ ?acc @ bytes_of (crlf @ crlf))"
    by (intro utf8_encode_append literal_codec head_ascii enc)
  show ?thesis
    using rh key full dec resp
    by (simp add: handshake_def strip_b2a_base64)
qed

lemma strip_header_text:
  assumes "well_formed (n, v)"
  shows "strip_by is_space (header_text (n, v)) = n @ str_of '': '' @ v"
proof -
  have n: "list_all (\<lambda>c. c \<noteq> 58 \<and> \<not> is_space c) n" and v: "v \<noteq> []" "\<not> is_space (last v)"
    using assms by (simp_all add: well_formed_def)
  have front: "dropWhile is_space (n @ [58, 32] @ v @ [13, 10]) = n @ [58, 32] @ v @ [13, 10]"
    using n by (cases n) (auto simp: is_space_def)
  obtain w x where vx: "v = w @ [x]"
    using v(1) by (cases v rule: rev_cases) auto
  have x: "\<not> is_space x"
    using v(2) by (simp add: vx)
  have sp: "is_space 10" "is_space 13"
    by (simp_all add: is_space_def)
  have trail: "dropWhile is_space ([10, 13] @ rev v @ [32, 58] @ rev n) = rev v @ [32, 58] @ rev n"
    using x sp by (simp add: vx)
  have ht: "header_text (n, v) = n @ [58, 32] @ v @ [13, 10]"
    by (simp add: header_text_def str_of_def crlf_def)
  have r: "rev (n @ [58, 32] @ v @ [13, 10]) = [10, 13] @ rev v @ [32, 58] @ rev n"
    by simp
  have "strip_by is_space (header_text (n, v))
      = rev (dropWhile is_space (rev (dropWhile is_space (n @ [58, 32] @ v @ [13, 10]))))"
    by (simp only: strip_by_def ht)
  also have "\<dots> = rev (dropWhile is_space ([10, 13] @ rev v @ [32, 58] @ rev n))"
    by (simp only: front r)
  also have "\<dots> = rev (rev v @ [32, 58] @ rev n)"
    by (simp only: trail)
  also have "\<dots> = n @ [58, 32] @ v"
    by simp
  also have "\<dots> = n @ str_of '': '' @ v"
    by (simp add: str_of_def)
  finally show ?thesis .
qed

lemma split_header:
  assumes "list_all (\<lambda>c. c \<noteq> 58 \<and> \<not> is_space c) n"
  shows "split_once (str_of '': '') (n @ str_of '': '' @ v) = Some (n, v)"
  using assms by (induction n) (simp_all add: str_of_def)

lemma header_line_not_end:
  assumes "utf8_encode (header_text h) = Some l"
  shows "l \<noteq> bytes_of crlf" and "l \<noteq> []"
proof -
  have d: "utf8_decode l = Some (header_text h)"
    using assms by (rule utf8_codec)
  have len: "4 \<le> length (header_text h)"
    by (simp add: header_text_def str_of_def crlf_def)
  show "l \<noteq> []"
    using d len by auto
  have "utf8_decode (bytes_of crlf) = Some [13, 10]"
    by (simp add: bytes_of_def crlf_def)
  then show "l \<noteq> bytes_of crlf"
    using d len by auto
qed

lemma read_headers_prefix:
  assumes "list_all2 (\<lambda>h l. utf8_encode (header_text h) = Some l) hs ls"
    and "list_all well_formed hs"
  shows "read_headers (ls @ rest) m = read_headers rest (m ++ map_of (rev hs))"
  using assms
proof (induction arbitrary: m rule: list_all2_induct)
  case Nil
  show ?case
    by simp
next
  case (Cons h hs l ls)
  obtain n v where h: "h = (n, v)"
    by (cases h)
  have wf: "well_formed (n, v)" and rest_wf: "list_all well_formed hs"
    using Cons.prems by (simp_all add: h)
  have d: "utf8_decode l = Some (header_text (n, v))"
    using Cons.hyps(1) utf8_codec by (simp add: h)
  have sp: "split_once (str_of '': '') (strip_by is_space (header_text (n, v))) = Some (n, v)"
    using wf by (simp add: strip_header_text split_header well_formed_def)
  have "read_headers ((l # ls) @ rest) m = read_headers (ls @ rest) (m(n \<mapsto> v))"
    using header_line_not_end [OF Cons.hyps(1)] d sp by simp
  also have "\<dots> = read_headers rest (m(n \<mapsto> v) ++ map_of (rev hs))"
    by (rule Cons.IH [OF rest_wf])
  also have "m(n \<mapsto> v) ++ map_of (rev hs) = m ++ map_of (rev (h # hs))"
    by (simp add: h map_add_upd_left fun_eq_iff map_add_def split: option.splits)
  finally show ?case .
qed

lemma read_headers_well_formed:
  assumes "list_all2 (\<lambda>h l. utf8_encode (header_text h) = Some l) hs ls"
    and "list_all well_formed hs"
    and "rest = [] \<or> hd rest = bytes_of crlf \<or> hd rest = []"
  shows "read_headers (ls @ rest) m = Inr (m ++ map_of (rev hs))"
proof -
  have "read_headers rest m' = Inr m'" for m'
    using assms(3) by (cases rest) auto
  then show ?thesis
    using read_headers_prefix [OF assms(1,2)] by simp
qed

text \<open>
  A line among the headers that, decoded and stripped, has no \<^verbatim>\<open>": "\<close> in it makes the
  handshake fail with ValueError, whatever headers come before or after it and whether or
  not the key is among them.
\<close>

lemma handshake_malformed_line:
  assumes "list_all2 (\<lambda>h l. utf8_encode (header_text h) = Some l) hs ls"
    and "list_all well_formed hs"
    and "bad \<noteq> bytes_of crlf" and "bad \<noteq> []"
    and "utf8_decode bad = Some t"
    and "split_once (str_of '': '') (strip_by is_space t) = None"
  shows "handshake sha1 (request_line # ls @ bad # rest) = Inl ValueError"
proof -
  have "read_headers (ls @ bad # rest) Map.empty = Inl ValueError"
    using assms(3-6) by (simp add: read_headers_prefix [OF assms(1,2)])
  then show ?thesis
    by (simp add: handshake_def)
qed

text \<open>
  Claim C8, as amended. The request is a request line, header lines and the blank line
  (or the end of the stream), where each header line is the encoding of a well-formed
  header: its name, a colon and a space, its value, and the line end. If no header of the
  request is named \<^verbatim>\<open>Sec-WebSocket-Key\<close> the handshake fails with ValueError. Otherwise,
  with \<open>key\<close> the value of the last header of that name, the bytes written are the status
  line \<^verbatim>\<open>HTTP/1.1 101 Switching Protocols\<close>, the \<^verbatim>\<open>Upgrade\<close> and \<^verbatim>\<open>Connection\<close> headers
  and \<^verbatim>\<open>Sec-WebSocket-Accept\<close> with the base64 text of the digest of the bytes of the
  key followed by the protocol GUID, closed by an empty line. This holds for every digest
  function in the place of SHA-1.
\<close>

theorem C8_handshake_accept:
  assumes "list_all well_formed hs"
    and "list_all2 (\<lambda>h l. utf8_encode (header_text h) = Some l) hs ls"
    and "rest = [] \<or> hd rest = bytes_of crlf \<or> hd rest = []"
  shows "(map_of (rev hs) (str_of ''Sec-WebSocket-Key'') = None \<longrightarrow>
            handshake sha1 (request_line # ls @ rest) = Inl ValueError)
       \<and> (\<forall>key. map_of (rev hs) (str_of ''Sec-WebSocket-Key'') = Some key \<longrightarrow>
            (\<exists>key_bytes.
               utf8_encode (key @ str_of WS_MAGIC_STRING) = Some key_bytes
               \<and> handshake sha1 (request_line # ls @ rest)
                  = Inr (bytes_of response_head @ b64_groups (sha1 key_bytes)
                         @ bytes_of (crlf @ crlf))))"
proof -
  have rh: "read_headers (tl (request_line # ls @ rest)) Map.empty = Inr (map_of (rev hs))"
    using read_headers_well_formed [OF assms(2,1,3), of Map.empty] by simp
  show ?thesis
  proof (intro conjI allI impI)
    assume "map_of (rev hs) (str_of ''Sec-WebSocket-Key'') = None"
    then show "handshake sha1 (request_line # ls @ rest) = Inl ValueError"
      using rh by (simp add: handshake_def)
  next
    fix key
    assume "map_of (rev hs) (str_of ''Sec-WebSocket-Key'') = Some key"
    with rh show "\<exists>key_bytes.
        utf8_encode (key @ str_of WS_MAGIC_STRING) = Some key_bytes
        \<and> handshake sha1 (request_line # ls @ rest)
           = Inr (bytes_of response_head @ b64_groups (sha1 key_bytes) @ bytes_of (crlf @ crlf))"
      by (rule handshake_accept)
  qed
qed

text \<open>
  The witness is the request of this repository's client; \<open>take 20\<close> stands in for the
  digest function.
\<close>

theorem C8_handshake_accept_witness:
  "list_all well_formed client_headers
   \<and> list_all2 (\<lambda>h l. utf8_encode (header_text h) = Some l) client_headers
        (butlast (tl client_request))
   \<and> client_request = hd client_request # butlast (tl client_request) @ [bytes_of crlf]
   \<and> handshake (take 20) client_request
       = Inr (bytes_of response_head
              @ b64_groups (take 20 (bytes_of (''dGhlIHNhbXBsZSBub25jZQ=='' @ WS_MAGIC_STRING)))
              @ bytes_of (crlf @ crlf))"
proof -
  have wf: "list_all well_formed client_headers"
    by (simp add: client_headers_def well_formed_def str_of_def is_space_def)
  have enc: "list_all2 (\<lambda>h l. utf8_encode (header_text h) = Some l) client_headers
      (butlast (tl client_request))"
    by (simp add: client_headers_def client_request_def header_text_def str_of_def bytes_of_def
          crlf_def utf8_encode_char_def)
  have e: "[bytes_of crlf] = [] \<or> hd [bytes_of crlf] = bytes_of crlf \<or> hd [bytes_of crlf] = []"
    by simp
  have req: "client_request = hd client_request # butlast (tl client_request) @ [bytes_of crlf]"
    by (simp add: client_request_def)
  have k: "map_of (rev client_headers) (str_of ''Sec-WebSocket-Key'')
      = Some (str_of ''dGhlIHNhbXBsZSBub25jZQ=='')"
    by (simp add: client_headers_def str_of_def)
  have ascii: "list_all (\<lambda>c. (of_char c :: nat) < 128) (''dGhlIHNhbXBsZSBub25jZQ=='' @ WS_MAGIC_STRING)"
    by (simp add: WS_MAGIC_STRING_def)
  have kb: "utf8_encode (str_of ''dGhlIHNhbXBsZSBub25jZQ=='' @ str_of WS_MAGIC_STRING)
      = Some (bytes_of (''dGhlIHNhbXBsZSBub25jZQ=='' @ WS_MAGIC_STRING))"
    using literal_codec [OF ascii] by (simp add: str_of_def)
  from C8_handshake_accept [OF wf enc e, of "take 20" "hd client_request"] k
  obtain key_bytes where
    "utf8_encode (str_of ''dGhlIHNhbXBsZSBub25jZQ=='' @ str_of WS_MAGIC_STRING) = Some key_bytes"
    "handshake (take 20) (hd client_request # butlast (tl client_request) @ [bytes_of crlf])
       = Inr (bytes_of response_head @ b64_groups (take 20 key_bytes) @ bytes_of (crlf @ crlf))"
    by blast
  then have "handshake (take 20) client_request
       = Inr (bytes_of response_head
              @ b64_groups (take 20 (bytes_of (''dGhlIHNhbXBsZSBub25jZQ=='' @ WS_MAGIC_STRING)))
              @ bytes_of (crlf @ crlf))"
    using kb req by simp
  then show ?thesis
    using wf enc req by simp
qed

text \<open>
  The claim as stated fails: a request that carries the key header and, after it, the
  header \<^verbatim>\<open>Host:192.168.4.1\<close> with no space after the colon. The handshake raises
  ValueError and writes no response.
\<close>

theorem C8_key_present_but_rejected_counterexample:
  "handshake (take 20)
     [bytes_of (''GET / HTTP/1.1'' @ crlf),
      bytes_of (''Sec-WebSocket-Key: dGhlIHNhbXBsZSBub25jZQ=='' @ crlf),
      bytes_of (''Host:192.168.4.1'' @ crlf),
      bytes_of crlf] = Inl ValueError"
  by (simp add: handshake_def bytes_of_def str_of_def crlf_def strip_by_def is_space_def)

section \<open>Properties of discovery\<close>

lemma hello_ip_not_hello: "\<not> is_hello d \<Longrightarrow> hello_ip d = None"
  by (auto simp: is_hello_def hello_ip_def split: datagram.splits sum.splits json.splits)

lemma wait_rounds_no_hello:
  "(\<And>j. j < n \<Longrightarrow> \<not> is_hello (recv (i + j))) \<Longrightarrow>
   wait_rounds recv i n = (None, concat (replicate n [Recvfrom, Sleep_s 1]))"
proof (induction n arbitrary: i)
  case 0
  then show ?case by simp
next
  case (Suc n)
  have first: "hello_ip (recv i) = None"
    using Suc.prems [of 0] by (simp add: hello_ip_not_hello)
  have "\<not> is_hello (recv (Suc i + j))" if "j < n" for j
    using Suc.prems [of "Suc j"] that by simp
  then have "wait_rounds recv (Suc i) n = (None, concat (replicate n [Recvfrom, Sleep_s 1]))"
    by (rule Suc.IH)
  then show ?case
    using first by simp
qed

text \<open>
  Claim C5. Where none of the ten calls of \<^verbatim>\<open>recvfrom\<close> gives a \<^verbatim>\<open>hello\<close> datagram,
  \<^verbatim>\<open>_wait_for_response\<close> returns \<^verbatim>\<open>None\<close> after exactly ten rounds, each one call of
  \<^verbatim>\<open>recvfrom\<close> followed by a sleep of one second, and \<^verbatim>\<open>start\<close> returns \<^verbatim>\<open>None\<close> after
  its five broadcasts and these ten rounds, without sending anything else and without
  trying again.
\<close>

theorem C5_pairing_timeout:
  assumes "\<forall>i<10. \<not> is_hello (recv i)"
  shows "wait_for_response recv = (None, concat (replicate 10 [Recvfrom, Sleep_s 1]))
       \<and> start ip mac recv
           = (Inr None, broadcasts ip mac @ concat (replicate 10 [Recvfrom, Sleep_s 1]))
       \<and> length (filter (\<lambda>e. e = Recvfrom) (snd (start ip mac recv))) = 10"
proof -
  have w: "wait_for_response recv = (None, concat (replicate 10 [Recvfrom, Sleep_s 1]))"
    unfolding wait_for_response_def
    using assms by (intro wait_rounds_no_hello) simp
  have s: "start ip mac recv
      = (Inr None, broadcasts ip mac @ concat (replicate 10 [Recvfrom, Sleep_s 1]))"
    by (simp add: start_def w)
  have "length (filter (\<lambda>e. e = Recvfrom) (snd (start ip mac recv))) = 10"
    unfolding s by (simp add: broadcasts_def numeral_eq_Suc)
  then show ?thesis
    using w s by simp
qed

theorem C5_pairing_timeout_witness:
  "wait_for_response (\<lambda>i. No_data) = (None, concat (replicate 10 [Recvfrom, Sleep_s 1]))
   \<and> start ''192.168.4.2'' ''3c71bf5a5414'' (\<lambda>i. No_data)
       = (Inr None,
          broadcasts ''192.168.4.2'' ''3c71bf5a5414'' @ concat (replicate 10 [Recvfrom, Sleep_s 1]))
   \<and> length (filter (\<lambda>e. e = Recvfrom)
        (snd (start ''192.168.4.2'' ''3c71bf5a5414'' (\<lambda>i. No_data)))) = 10"
proof -
  have h: "\<forall>i<10. \<not> is_hello ((\<lambda>i :: nat. No_data) i)"
    by (simp add: is_hello_def)
  show ?thesis
    by (rule C5_pairing_timeout [OF h])
qed

end
